theory Spec2Isabelle
  imports Complex_Main "HOL-Library.Sublist"
begin

section \<open>Python strings and integers\<close>

text \<open>
  The program is Python. Its \<open>str\<close> values are modelled as \<open>string\<close>, a list of
  characters; a character stands for the code point of the same number, so the model
  covers the texts whose code points are below 256. Positions are Python integers
  (\<open>int\<close>): the source uses \<open>-1\<close> as "not found" and passes negative bounds to
  \<open>find\<close> and to slices, where they count from the end of the string.
\<close>

abbreviation LF :: char where "LF \<equiv> CHR 0x0A"
abbreviation CR :: char where "CR \<equiv> CHR 0x0D"
abbreviation TAB :: char where "TAB \<equiv> CHR 0x09"
abbreviation NUL :: char where "NUL \<equiv> CHR 0x00"

text \<open>A slice bound as Python normalises it: a negative bound counts from the end, and
  the result is clipped to \<open>0 .. len(s)\<close>.\<close>

definition py_clip :: "string \<Rightarrow> int \<Rightarrow> nat" where
  "py_clip s i =
     (let n = int (length s) in nat (if i < 0 then max 0 (i + n) else min i n))"

text \<open>\<open>s[a:b]\<close>.\<close>

definition py_slice :: "string \<Rightarrow> int \<Rightarrow> int \<Rightarrow> string" where
  "py_slice s a b = take (py_clip s b - py_clip s a) (drop (py_clip s a) s)"

text \<open>\<open>s.find(sub, a, b)\<close> for a non-empty \<open>sub\<close>: the lowest index \<open>i\<close> with
  \<open>s[i:i+len(sub)] == sub\<close> that lies wholly inside \<open>s[a:b]\<close>, or \<open>-1\<close>.
  \<open>s.find(sub, a)\<close> is \<open>s.find(sub, a, len(s))\<close>.\<close>

definition py_find :: "string \<Rightarrow> string \<Rightarrow> int \<Rightarrow> int \<Rightarrow> int" where
  "py_find s sub a b =
     (case List.find (\<lambda>i. take (length sub) (drop i s) = sub)
             [py_clip s a ..< Suc (py_clip s b) - length sub] of
        None \<Rightarrow> - 1
      | Some i \<Rightarrow> int i)"

text \<open>\<open>s.startswith(p)\<close>.\<close>

definition py_startswith :: "string \<Rightarrow> string \<Rightarrow> bool" where
  "py_startswith s p = (take (length p) s = p)"

text \<open>\<open>s.strip(chars)\<close> and \<open>s.rstrip(chars)\<close>.\<close>

definition py_strip :: "string \<Rightarrow> string \<Rightarrow> string" where
  "py_strip chars s =
     rev (dropWhile (\<lambda>c. c \<in> set chars) (rev (dropWhile (\<lambda>c. c \<in> set chars) s)))"

definition py_rstrip :: "string \<Rightarrow> string \<Rightarrow> string" where
  "py_rstrip chars s = rev (dropWhile (\<lambda>c. c \<in> set chars) (rev s))"

text \<open>The code points below 256 that \<open>str.isspace\<close> accepts; \<open>s.strip()\<close> without
  an argument removes them from both ends.\<close>

definition py_isspace :: "char \<Rightarrow> bool" where
  "py_isspace c =
     ((of_char c :: int) \<in> {9, 10, 11, 12, 13, 28, 29, 30, 31, 32, 133, 160})"

definition py_strip_ws :: "string \<Rightarrow> string" where
  "py_strip_ws s = rev (dropWhile py_isspace (rev (dropWhile py_isspace s)))"

text \<open>\<open>int(s)\<close> has its own, smaller set of blanks: of the code points below 256 it
  skips the ASCII white space and the two blanks that are not ASCII, but not the
  separators 28 to 31.\<close>

definition py_int_space :: "char \<Rightarrow> bool" where
  "py_int_space c = ((of_char c :: int) \<in> {9, 10, 11, 12, 13, 32, 133, 160})"

text \<open>\<open>int(s)\<close>: the blanks at both ends are dropped, then comes an optional sign and
  a non-empty run of decimal digits in which single underscores may separate digits.
  \<open>None\<close> is the \<open>ValueError\<close>. (The interpreter's configurable limit on the number
  of digits is not part of the model.)\<close>

definition digit_of :: "char \<Rightarrow> int option" where
  "digit_of c =
     (let k = (of_char c :: int) in if 48 \<le> k \<and> k \<le> 57 then Some (k - 48) else None)"

fun py_digits :: "string \<Rightarrow> int \<Rightarrow> int option" where
  "py_digits [] acc = Some acc"
| "py_digits (c # cs) acc =
     (if c = CHR ''_'' then
        (case cs of
           [] \<Rightarrow> None
         | d # ds \<Rightarrow>
             (case digit_of d of
                None \<Rightarrow> None
              | Some k \<Rightarrow> py_digits ds (acc * 10 + k)))
      else
        (case digit_of c of
           None \<Rightarrow> None
         | Some k \<Rightarrow> py_digits cs (acc * 10 + k)))"

text \<open>An unsigned literal: it starts with a digit.\<close>

definition py_unsigned :: "string \<Rightarrow> int option" where
  "py_unsigned s =
     (case s of
        [] \<Rightarrow> None
      | c # cs \<Rightarrow> (case digit_of c of None \<Rightarrow> None | Some k \<Rightarrow> py_digits cs k))"

definition py_int :: "string \<Rightarrow> int option" where
  "py_int s =
     (case rev (dropWhile py_int_space (rev (dropWhile py_int_space s))) of
        [] \<Rightarrow> None
      | c # cs \<Rightarrow>
          if c = CHR ''-'' then map_option uminus (py_unsigned cs)
          else if c = CHR ''+'' then py_unsigned cs
          else py_unsigned (c # cs))"

text \<open>A Python number that is an \<open>int\<close> or a finite \<open>float\<close> is modelled by its
  value, a real number; the infinities and the NaN of \<open>float\<close>, on which \<open>int\<close>
  raises, are not values of the model. \<open>int(x)\<close> of a number is its whole part,
  rounded toward zero; on a whole number it changes nothing.\<close>

definition py_trunc :: "real \<Rightarrow> int" where
  "py_trunc x = (if 0 \<le> x then \<lfloor>x\<rfloor> else \<lceil>x\<rceil>)"

text \<open>\<open>str(n)\<close>, which is also what an f-string prints for an integer:
  \<open>py_str_digits\<close> prints a number that is not negative.\<close>

function py_str_digits :: "int \<Rightarrow> string" where
  "py_str_digits n =
     (if n < 10 then [char_of (48 + n)]
      else py_str_digits (n div 10) @ [char_of (48 + n mod 10)])"
  by pat_completeness auto
termination
  by (relation "measure nat") auto

declare py_str_digits.simps [simp del]

definition py_str :: "int \<Rightarrow> string" where
  "py_str i = (if i < 0 then CHR ''-'' # py_str_digits (- i) else py_str_digits i)"

section \<open>Constants and the record\<close>

definition CFSFILE_VERSION_1 :: int where "CFSFILE_VERSION_1 = 1"
definition CFSFILE_VERSION_2 :: int where "CFSFILE_VERSION_2 = 2"
definition CFSFILE_VERSION_3 :: int where "CFSFILE_VERSION_3 = 3"
definition CFSFILE_CURRENT_VERSION :: int where
  "CFSFILE_CURRENT_VERSION = CFSFILE_VERSION_3"

definition FORMAT_FIELD_DELIMITER :: string where "FORMAT_FIELD_DELIMITER = ''=''"
definition FORMAT_NEW_LINE_CHAR :: string where "FORMAT_NEW_LINE_CHAR = [LF]"
definition FORMAT_NEW_LINE_CHAR_2 :: string where "FORMAT_NEW_LINE_CHAR_2 = [CR]"
definition FORMAT_NEW_LINE_LENGTH :: int where "FORMAT_NEW_LINE_LENGTH = 1"
definition FORMAT_TRIMMING_CHARS :: string where
  "FORMAT_TRIMMING_CHARS = [CHR '' '', TAB, CR, LF]"
definition FORMAT_MAX_FILE_SIZE :: int where "FORMAT_MAX_FILE_SIZE = 1048576"
definition FORMAT_HEADER_NAME :: string where "FORMAT_HEADER_NAME = ''CatalogFS''"
definition FORMAT_HEADER_TO_WRITE :: string where
  "FORMAT_HEADER_TO_WRITE =
     FORMAT_HEADER_NAME @ FORMAT_FIELD_DELIMITER @ py_str CFSFILE_CURRENT_VERSION
       @ FORMAT_NEW_LINE_CHAR"
definition FORMAT_HEADER_PREFIX_OLD_FORMAT :: string where
  "FORMAT_HEADER_PREFIX_OLD_FORMAT = ''CatalogFS.File.''"

text \<open>Class \<open>CFSFile\<close>. Every attribute starts as Python's \<open>None\<close>, here \<open>None\<close>.
  The attribute \<open>size\<close> is the field \<open>size_f\<close>. The time attributes \<open>atime\<close>,
  \<open>mtime\<close> and \<open>ctime\<close> hold a number of seconds: the float that \<open>os.lstat\<close>
  reports when the record is made from a file, a whole number when the record was read
  from a text.\<close>

record CFSFile =
  size_f :: "int option"
  blocks :: "int option"
  mode :: "int option"
  uid :: "int option"
  gid :: "int option"
  atime :: "real option"
  mtime :: "real option"
  ctime :: "real option"
  atimensec :: "int option"
  mtimensec :: "int option"
  ctimensec :: "int option"
  nlink :: "int option"
  blksize :: "int option"
  sha256 :: "string option"

definition CFSFile_init :: CFSFile where
  "CFSFile_init =
     \<lparr>size_f = None, blocks = None, mode = None, uid = None, gid = None,
      atime = None, mtime = None, ctime = None,
      atimensec = None, mtimensec = None, ctimensec = None,
      nlink = None, blksize = None, sha256 = None\<rparr>"

text \<open>The \<open>RuntimeError\<close>s the readers raise, one constructor per message.\<close>

datatype error =
    NoValidHeader
  | InvalidVersionString string
  | UnsupportedVersion int
  | InvalidOldFormatVersion int
  | UnknownFormatVersion int
  | InvalidString
  | UnknownParamName
  | NotAnInteger string

section \<open>Reading the current format\<close>

definition is_old_format_cfsfile :: "string \<Rightarrow> bool" where
  "is_old_format_cfsfile data = py_startswith data FORMAT_HEADER_PREFIX_OLD_FORMAT"

text \<open>The loop \<open>for i in range(start_position, len(s))\<close>. Every caller passes a
  \<open>start_position\<close> that is not negative, so \<open>s[i]\<close> is always in range.\<close>

function find_next_newline_in_string :: "string \<Rightarrow> int \<Rightarrow> int" where
  "find_next_newline_in_string s i =
     (if i < int (length s) then
        (if [s ! nat i] = FORMAT_NEW_LINE_CHAR \<or> [s ! nat i] = FORMAT_NEW_LINE_CHAR_2
         then i
         else find_next_newline_in_string s (i + 1))
      else - 1)"
  by pat_completeness auto
termination
  by (relation "measure (\<lambda>(s, i). nat (int (length s) - i))") auto

declare find_next_newline_in_string.simps [simp del]

lemma find_next_newline_ge:
  "find_next_newline_in_string s i = - 1 \<or> i \<le> find_next_newline_in_string s i"
proof (induction s i rule: find_next_newline_in_string.induct)
  case (1 s i)
  then show ?case
    by (subst (1 2) find_next_newline_in_string.simps) auto
qed

text \<open>\<open>cfsfile_get_next_option_pair\<close>: the next \<open>option=value\<close> line at or after
  \<open>start_position\<close>, with the position after it; \<open>(-1, '', '')\<close> when only blank
  lines remain. The recursion is the \<open>while\<close> loop over \<open>current_pos\<close>; the guard
  \<open>start_position >= len(data)\<close> before the loop returns what the loop's exit returns.\<close>

function cfsfile_get_next_option_pair ::
  "string \<Rightarrow> int \<Rightarrow> error + (int \<times> string \<times> string)" where
  "cfsfile_get_next_option_pair data current_pos =
     (if current_pos < int (length data) then
        (let found = find_next_newline_in_string data current_pos;
             line_end = (if found = - 1 then int (length data) else found);
             param_end = py_find data FORMAT_FIELD_DELIMITER current_pos line_end
         in
           if param_end = - 1 then
             (if length (py_strip FORMAT_TRIMMING_CHARS
                           (py_slice data current_pos line_end)) > 0
              then Inl InvalidString
              else cfsfile_get_next_option_pair data (line_end + FORMAT_NEW_LINE_LENGTH))
           else
             (let option = py_strip FORMAT_TRIMMING_CHARS
                             (py_slice data current_pos param_end);
                  value_start = param_end + int (length FORMAT_FIELD_DELIMITER);
                  value = py_slice data value_start line_end
              in Inr (line_end + FORMAT_NEW_LINE_LENGTH, option, value)))
      else Inr (- 1, [], []))"
  by pat_completeness auto
termination
proof (relation "measure (\<lambda>(data, p). nat (int (length data) - p))", goal_cases)
  case 1
  show ?case by simp
next
  case (2 data current_pos found line_end param_end)
  from find_next_newline_ge [of data current_pos] 2 show ?case
    by (auto simp: FORMAT_NEW_LINE_LENGTH_def)
qed

declare cfsfile_get_next_option_pair.simps [simp del]

lemma cfsfile_get_next_option_pair_advances:
  "cfsfile_get_next_option_pair d p = Inr (q, ov) \<Longrightarrow> q \<noteq> - 1
   \<Longrightarrow> p < int (length d) \<and> p < q"
proof (induction d p rule: cfsfile_get_next_option_pair.induct)
  case (1 d p)
  from "1.prems" find_next_newline_ge [of d p] "1.IH" show ?case
    by (subst (asm) cfsfile_get_next_option_pair.simps)
       (fastforce simp: Let_def FORMAT_NEW_LINE_LENGTH_def split: if_splits)
qed

text \<open>\<open>cfsfile_extract_int\<close>.\<close>

definition cfsfile_extract_int :: "string \<Rightarrow> error + int" where
  "cfsfile_extract_int field_value_str =
     (case py_int (py_strip FORMAT_TRIMMING_CHARS field_value_str) of
        None \<Rightarrow> Inl (NotAnInteger field_value_str)
      | Some field_value_int \<Rightarrow> Inr field_value_int)"

text \<open>An assignment \<open>cfs_file.f = cfsfile_extract_int(value)\<close>: the exception of the
  right-hand side leaves the statement before the attribute is written. A time
  attribute receives the integer as the number it is.\<close>

definition assign_int :: "error + int \<Rightarrow> (int option \<Rightarrow> CFSFile) \<Rightarrow> error + CFSFile" where
  "assign_int r upd = (case r of Inl e \<Rightarrow> Inl e | Inr n \<Rightarrow> Inr (upd (Some n)))"

text \<open>The \<open>if\<close>/\<open>elif\<close> chain in the body of the loop of
  \<open>fill_cfsfile_from_string\<close>.\<close>

definition fill_cfsfile_param :: "string \<Rightarrow> string \<Rightarrow> CFSFile \<Rightarrow> error + CFSFile" where
  "fill_cfsfile_param param value cfs_file =
     (if param = ''size'' then
        assign_int (cfsfile_extract_int value) (\<lambda>v. cfs_file\<lparr>size_f := v\<rparr>)
      else if param = ''blocks'' then
        assign_int (cfsfile_extract_int value) (\<lambda>v. cfs_file\<lparr>blocks := v\<rparr>)
      else if param = ''mode'' then
        assign_int (cfsfile_extract_int value) (\<lambda>v. cfs_file\<lparr>mode := v\<rparr>)
      else if param = ''uid'' then
        assign_int (cfsfile_extract_int value) (\<lambda>v. cfs_file\<lparr>uid := v\<rparr>)
      else if param = ''gid'' then
        assign_int (cfsfile_extract_int value) (\<lambda>v. cfs_file\<lparr>gid := v\<rparr>)
      else if param = ''atime'' then
        assign_int (cfsfile_extract_int value)
          (\<lambda>v. cfs_file\<lparr>atime := map_option real_of_int v\<rparr>)
      else if param = ''mtime'' then
        assign_int (cfsfile_extract_int value)
          (\<lambda>v. cfs_file\<lparr>mtime := map_option real_of_int v\<rparr>)
      else if param = ''ctime'' then
        assign_int (cfsfile_extract_int value)
          (\<lambda>v. cfs_file\<lparr>ctime := map_option real_of_int v\<rparr>)
      else if param = ''atimensec'' then
        assign_int (cfsfile_extract_int value) (\<lambda>v. cfs_file\<lparr>atimensec := v\<rparr>)
      else if param = ''mtimensec'' then
        assign_int (cfsfile_extract_int value) (\<lambda>v. cfs_file\<lparr>mtimensec := v\<rparr>)
      else if param = ''ctimensec'' then
        assign_int (cfsfile_extract_int value) (\<lambda>v. cfs_file\<lparr>ctimensec := v\<rparr>)
      else if param = ''nlink'' then
        assign_int (cfsfile_extract_int value) (\<lambda>v. cfs_file\<lparr>nlink := v\<rparr>)
      else if param = ''blksize'' then
        assign_int (cfsfile_extract_int value) (\<lambda>v. cfs_file\<lparr>blksize := v\<rparr>)
      else if param = ''sha256'' then
        Inr (cfs_file\<lparr>sha256 := Some (py_strip FORMAT_TRIMMING_CHARS value)\<rparr>)
      else Inl UnknownParamName)"

text \<open>The \<open>while True\<close> loop of \<open>fill_cfsfile_from_string\<close>.\<close>

function fill_cfsfile_loop :: "string \<Rightarrow> int \<Rightarrow> CFSFile \<Rightarrow> error + CFSFile" where
  "fill_cfsfile_loop data current_pos cfs_file =
     (case cfsfile_get_next_option_pair data current_pos of
        Inl e \<Rightarrow> Inl e
      | Inr (new_pos, option, value) \<Rightarrow>
          if new_pos = - 1 then Inr cfs_file
          else
            (case fill_cfsfile_param option value cfs_file of
               Inl e \<Rightarrow> Inl e
             | Inr cfs_file' \<Rightarrow> fill_cfsfile_loop data new_pos cfs_file'))"
  by pat_completeness auto
termination
proof (relation "measure (\<lambda>(data, p, c). nat (int (length data) - p))", goal_cases)
  case 1
  show ?case by simp
next
  case (2 data current_pos cfs_file r new_pos rest option "value" cfs_file')
  from 2 cfsfile_get_next_option_pair_advances [of data current_pos new_pos "(option, value)"]
  show ?case by auto
qed

declare fill_cfsfile_loop.simps [simp del]

text \<open>\<open>fill_cfsfile_from_string\<close>. \<open>int(version_str)\<close> is applied to the raw value
  of the header line.\<close>

definition fill_cfsfile_from_string :: "string \<Rightarrow> CFSFile \<Rightarrow> error + CFSFile" where
  "fill_cfsfile_from_string data cfs_file =
     (case cfsfile_get_next_option_pair data 0 of
        Inl e \<Rightarrow> Inl e
      | Inr (body_start, header_name, version_str) \<Rightarrow>
          if header_name \<noteq> FORMAT_HEADER_NAME then Inl NoValidHeader
          else
            (case py_int version_str of
               None \<Rightarrow> Inl (InvalidVersionString version_str)
             | Some version_int \<Rightarrow>
                 if version_int \<noteq> CFSFILE_VERSION_3 then Inl (UnsupportedVersion version_int)
                 else fill_cfsfile_loop data body_start cfs_file))"

section \<open>Reading the old formats\<close>

text \<open>\<open>old_format_extract_next_int\<close>, \<open>old_format_extract_next_string\<close> and
  \<open>old_format_extract_next_path\<close>: the value that starts at \<open>start_position\<close> and
  the position after it.\<close>

definition old_format_extract_next_int :: "string \<Rightarrow> int \<Rightarrow> error + (int \<times> int)" where
  "old_format_extract_next_int data start_position =
     (let new_line = [LF];
          found = py_find data new_line start_position (int (length data));
          field_end = (if found = - 1 then int (length data) else found);
          field_value_str = py_strip_ws (py_slice data start_position field_end)
      in case py_int field_value_str of
           None \<Rightarrow> Inl (NotAnInteger field_value_str)
         | Some field_value_int \<Rightarrow> Inr (field_end + int (length new_line), field_value_int))"

definition old_format_extract_next_string :: "string \<Rightarrow> int \<Rightarrow> int \<times> string" where
  "old_format_extract_next_string data start_position =
     (let new_line = [LF];
          found = py_find data new_line start_position (int (length data));
          field_end = (if found = - 1 then int (length data) else found);
          field_value_str = py_strip_ws (py_slice data start_position field_end)
      in (field_end + int (length new_line), field_value_str))"

definition old_format_extract_next_path :: "string \<Rightarrow> int \<Rightarrow> int \<times> string" where
  "old_format_extract_next_path data start_position =
     (let path_end = [NUL, LF];
          found = py_find data path_end start_position (int (length data));
          field_end = (if found = - 1 then int (length data) else found);
          field_value_path = py_rstrip [NUL] (py_slice data start_position field_end)
      in (field_end + int (length path_end), field_value_path))"

text \<open>A tuple assignment \<open>new_pos, cfs_file.f = old_format_extract_next_int(...)\<close>.\<close>

definition old_assign_int ::
  "error + (int \<times> int) \<Rightarrow> (int option \<Rightarrow> CFSFile) \<Rightarrow> error + (int \<times> CFSFile)" where
  "old_assign_int r upd =
     (case r of Inl e \<Rightarrow> Inl e | Inr (new_pos, n) \<Rightarrow> Inr (new_pos, upd (Some n)))"

text \<open>The \<open>if\<close>/\<open>elif\<close> chain in the loop of
  \<open>old_format_fill_cfsfile_body_from_string\<close>; it gives \<open>new_pos\<close> and the record.\<close>

definition old_format_fill_cfsfile_param ::
  "string \<Rightarrow> string \<Rightarrow> int \<Rightarrow> CFSFile \<Rightarrow> error + (int \<times> CFSFile)" where
  "old_format_fill_cfsfile_param param data value_start cfs_file =
     (if param = ''size'' then
        old_assign_int (old_format_extract_next_int data value_start)
          (\<lambda>v. cfs_file\<lparr>size_f := v\<rparr>)
      else if param = ''blocks'' then
        old_assign_int (old_format_extract_next_int data value_start)
          (\<lambda>v. cfs_file\<lparr>blocks := v\<rparr>)
      else if param = ''mode'' then
        old_assign_int (old_format_extract_next_int data value_start)
          (\<lambda>v. cfs_file\<lparr>mode := v\<rparr>)
      else if param = ''uid'' then
        old_assign_int (old_format_extract_next_int data value_start)
          (\<lambda>v. cfs_file\<lparr>uid := v\<rparr>)
      else if param = ''gid'' then
        old_assign_int (old_format_extract_next_int data value_start)
          (\<lambda>v. cfs_file\<lparr>gid := v\<rparr>)
      else if param = ''atime'' then
        old_assign_int (old_format_extract_next_int data value_start)
          (\<lambda>v. cfs_file\<lparr>atime := map_option real_of_int v\<rparr>)
      else if param = ''mtime'' then
        old_assign_int (old_format_extract_next_int data value_start)
          (\<lambda>v. cfs_file\<lparr>mtime := map_option real_of_int v\<rparr>)
      else if param = ''ctime'' then
        old_assign_int (old_format_extract_next_int data value_start)
          (\<lambda>v. cfs_file\<lparr>ctime := map_option real_of_int v\<rparr>)
      else if param = ''atimensec'' then
        old_assign_int (old_format_extract_next_int data value_start)
          (\<lambda>v. cfs_file\<lparr>atimensec := v\<rparr>)
      else if param = ''mtimensec'' then
        old_assign_int (old_format_extract_next_int data value_start)
          (\<lambda>v. cfs_file\<lparr>mtimensec := v\<rparr>)
      else if param = ''ctimensec'' then
        old_assign_int (old_format_extract_next_int data value_start)
          (\<lambda>v. cfs_file\<lparr>ctimensec := v\<rparr>)
      else if param = ''nlink'' then
        old_assign_int (old_format_extract_next_int data value_start)
          (\<lambda>v. cfs_file\<lparr>nlink := v\<rparr>)
      else if param = ''blksize'' then
        old_assign_int (old_format_extract_next_int data value_start)
          (\<lambda>v. cfs_file\<lparr>blksize := v\<rparr>)
      else if param = ''sha256'' then
        (case old_format_extract_next_string data value_start of
           (new_pos, v) \<Rightarrow> Inr (new_pos, cfs_file\<lparr>sha256 := Some v\<rparr>))
      else if param = ''name'' then
        (case old_format_extract_next_path data value_start of
           (new_pos, _) \<Rightarrow> Inr (new_pos, cfs_file))
      else if param = ''path'' then
        (case old_format_extract_next_path data value_start of
           (new_pos, _) \<Rightarrow> Inr (new_pos, cfs_file))
      else Inl UnknownParamName)"

text \<open>One pass through the body of the loop \<open>while current_pos < len(data)\<close> of
  \<open>old_format_fill_cfsfile_body_from_string\<close>: either the \<open>RuntimeError\<close>, or the
  position and the record the next pass starts from. \<open>line_end\<close> is what \<open>find\<close>
  returned, \<open>-1\<close> included: the source passes it on as the end bound of the second
  \<open>find\<close> and of the slice.\<close>

definition old_format_body_step :: "string \<Rightarrow> int \<Rightarrow> CFSFile \<Rightarrow> error + (int \<times> CFSFile)" where
  "old_format_body_step data current_pos cfs_file =
     (let field_sep = '': '';
          new_line = [LF];
          line_end = py_find data new_line current_pos (int (length data));
          param_end = py_find data field_sep current_pos line_end
      in
        if param_end = - 1 then
          (if length (py_strip FORMAT_TRIMMING_CHARS
                        (py_slice data current_pos line_end)) > 0
           then Inl InvalidString
           else Inr (line_end + int (length new_line), cfs_file))
        else
          (let param = py_slice data current_pos param_end;
               value_start = param_end + int (length field_sep)
           in old_format_fill_cfsfile_param param data value_start cfs_file))"

text \<open>The loop itself. Nothing in the source bounds the number of passes, so the model
  is a partial function: \<open>None\<close> is a loop that never ends.\<close>

partial_function (option) old_format_body_loop ::
  "string \<Rightarrow> int \<Rightarrow> CFSFile \<Rightarrow> (error + CFSFile) option" where
  "old_format_body_loop data current_pos cfs_file =
     (if current_pos < int (length data) then
        (case old_format_body_step data current_pos cfs_file of
           Inl e \<Rightarrow> Some (Inl e)
         | Inr (new_pos, cfs_file') \<Rightarrow> old_format_body_loop data new_pos cfs_file')
      else Some (Inr cfs_file))"

declare old_format_body_loop.simps [code]

definition old_format_fill_cfsfile_body_from_string ::
  "string \<Rightarrow> int \<Rightarrow> CFSFile \<Rightarrow> (error + CFSFile) option" where
  "old_format_fill_cfsfile_body_from_string data version cfs_file =
     (if version \<noteq> CFSFILE_VERSION_1 \<and> version \<noteq> CFSFILE_VERSION_2
      then Some (Inl (UnknownFormatVersion version))
      else old_format_body_loop data 0 cfs_file)"

definition old_format_fill_cfsfile_from_string ::
  "string \<Rightarrow> CFSFile \<Rightarrow> (error + CFSFile) option" where
  "old_format_fill_cfsfile_from_string data cfs_file =
     (let new_line = [LF];
          header_end = py_find data new_line 0 (int (length data))
      in
        if header_end = - 1 then Some (Inl NoValidHeader)
        else
          (let header = py_slice data 0 header_end in
             if \<not> py_startswith header FORMAT_HEADER_PREFIX_OLD_FORMAT
             then Some (Inl NoValidHeader)
             else
               (let version_str =
                      py_slice header (int (length FORMAT_HEADER_PREFIX_OLD_FORMAT))
                        (int (length header))
                in case py_int version_str of
                     None \<Rightarrow> Some (Inl (InvalidVersionString version_str))
                   | Some version_int \<Rightarrow>
                       if version_int \<noteq> CFSFILE_VERSION_1 \<and> version_int \<noteq> CFSFILE_VERSION_2
                       then Some (Inl (InvalidOldFormatVersion version_int))
                       else
                         (let body_data =
                                py_slice data (header_end + int (length new_line))
                                  (int (length data))
                          in old_format_fill_cfsfile_body_from_string
                               body_data version_int cfs_file))))"

section \<open>Reading and writing a CFSFile\<close>

text \<open>\<open>read_cfsfile\<close>, from the text \<open>data\<close> that \<open>read_text\<close> returned.\<close>

definition read_cfsfile :: "string \<Rightarrow> CFSFile \<Rightarrow> (error + CFSFile) option" where
  "read_cfsfile data cfs_file =
     (if is_old_format_cfsfile data
      then old_format_fill_cfsfile_from_string data cfs_file
      else Some (fill_cfsfile_from_string data cfs_file))"

text \<open>The pieces of the string \<open>write_cfsfile\<close> builds: a line for an attribute that is
  not \<open>None\<close>, and for the nanosecond attributes a line only when the value is also
  not zero. For the times it is \<open>int(cfs_file.mtime)\<close> that is printed, the seconds
  without their fraction.\<close>

definition fmt_int :: "string \<Rightarrow> int option \<Rightarrow> string" where
  "fmt_int name v =
     (case v of
        None \<Rightarrow> []
      | Some n \<Rightarrow> name @ FORMAT_FIELD_DELIMITER @ py_str n @ FORMAT_NEW_LINE_CHAR)"

definition fmt_time :: "string \<Rightarrow> real option \<Rightarrow> string" where
  "fmt_time name v =
     (case v of
        None \<Rightarrow> []
      | Some x \<Rightarrow> name @ FORMAT_FIELD_DELIMITER @ py_str (py_trunc x) @ FORMAT_NEW_LINE_CHAR)"

definition fmt_nsec :: "string \<Rightarrow> int option \<Rightarrow> string" where
  "fmt_nsec name v =
     (case v of
        None \<Rightarrow> []
      | Some n \<Rightarrow>
          if n \<noteq> 0 then name @ FORMAT_FIELD_DELIMITER @ py_str n @ FORMAT_NEW_LINE_CHAR
          else [])"

definition fmt_str :: "string \<Rightarrow> string option \<Rightarrow> string" where
  "fmt_str name v =
     (case v of
        None \<Rightarrow> []
      | Some t \<Rightarrow> name @ FORMAT_FIELD_DELIMITER @ t @ FORMAT_NEW_LINE_CHAR)"

text \<open>The text \<open>write_cfsfile\<close> writes to the output file.\<close>

definition write_cfsfile_data :: "CFSFile \<Rightarrow> bool \<Rightarrow> bool \<Rightarrow> string" where
  "write_cfsfile_data cfs_file flag_data_only flag_data_and_time_only =
     (if flag_data_only then
        FORMAT_HEADER_TO_WRITE
        @ fmt_int ''size'' (size_f cfs_file)
        @ fmt_str ''sha256'' (sha256 cfs_file)
      else if flag_data_and_time_only then
        FORMAT_HEADER_TO_WRITE
        @ fmt_int ''size'' (size_f cfs_file)
        @ fmt_time ''mtime'' (mtime cfs_file)
        @ fmt_nsec ''mtimensec'' (mtimensec cfs_file)
        @ fmt_str ''sha256'' (sha256 cfs_file)
      else
        FORMAT_HEADER_TO_WRITE
        @ fmt_int ''size'' (size_f cfs_file)
        @ fmt_int ''blocks'' (blocks cfs_file)
        @ fmt_int ''mode'' (mode cfs_file)
        @ fmt_int ''uid'' (uid cfs_file)
        @ fmt_int ''gid'' (gid cfs_file)
        @ fmt_time ''atime'' (atime cfs_file)
        @ fmt_time ''mtime'' (mtime cfs_file)
        @ fmt_time ''ctime'' (ctime cfs_file)
        @ fmt_nsec ''atimensec'' (atimensec cfs_file)
        @ fmt_nsec ''mtimensec'' (mtimensec cfs_file)
        @ fmt_nsec ''ctimensec'' (ctimensec cfs_file)
        @ fmt_int ''nlink'' (nlink cfs_file)
        @ fmt_int ''blksize'' (blksize cfs_file)
        @ fmt_str ''sha256'' (sha256 cfs_file))"

section \<open>Processing one source file\<close>

text \<open>What \<open>os.lstat\<close> reports for the source file. The times in seconds are floats;
  the times in nanoseconds are integers of their own.\<close>

record stat_result =
  st_mode :: int
  st_size :: int
  st_blocks :: int
  st_uid :: int
  st_gid :: int
  st_atime :: real
  st_mtime :: real
  st_ctime :: real
  st_atime_ns :: int
  st_mtime_ns :: int
  st_ctime_ns :: int
  st_nlink :: int
  st_blksize :: int

text \<open>\<open>stat.S_ISREG\<close> and \<open>stat.S_ISLNK\<close>: the file type is the hexadecimal digit of
  \<open>st_mode\<close> that \<open>S_IFMT = 0o170000\<close> selects; \<open>S_IFREG = 0o100000\<close> and
  \<open>S_IFLNK = 0o120000\<close>.\<close>

definition S_IFMT :: "int \<Rightarrow> int" where
  "S_IFMT m = (m div 4096 mod 16) * 4096"

definition S_ISREG :: "int \<Rightarrow> bool" where
  "S_ISREG m = (S_IFMT m = 32768)"

definition S_ISLNK :: "int \<Rightarrow> bool" where
  "S_ISLNK m = (S_IFMT m = 40960)"

definition create_cfsfile_from_regularfile :: "stat_result \<Rightarrow> CFSFile" where
  "create_cfsfile_from_regularfile st =
     \<lparr>size_f = Some (st_size st), blocks = Some (st_blocks st), mode = Some (st_mode st),
      uid = Some (st_uid st), gid = Some (st_gid st),
      atime = Some (st_atime st), mtime = Some (st_mtime st), ctime = Some (st_ctime st),
      atimensec = Some (st_atime_ns st mod 1000000000),
      mtimensec = Some (st_mtime_ns st mod 1000000000),
      ctimensec = Some (st_ctime_ns st mod 1000000000),
      nlink = Some (st_nlink st), blksize = Some (st_blksize st), sha256 = None\<rparr>"

text \<open>\<open>sha256_wrapper\<close>: \<open>checksum\<close> is what \<open>sha256_checksum\<close> gives for the file,
  \<open>None\<close> when it raises.\<close>

definition sha256_wrapper :: "string option \<Rightarrow> bool \<Rightarrow> string option" where
  "sha256_wrapper checksum flag_sha256 = (if flag_sha256 then checksum else None)"

text \<open>How a call of \<open>process_one_file\<close> ends: one constructor per message printed
  before the \<open>return\<close>, with the text written for a file that was listed.
  \<open>succeeded\<close> is the boolean the call returns.\<close>

datatype outcome =
    OutputExistsSkipped
  | OutputExists
  | OutputNameTaken
  | NotRegularNorSymlink
  | FileTooBig int
  | FailedToRead error
  | FileListed string
  | SymlinkCopied

fun succeeded :: "outcome \<Rightarrow> bool" where
  "succeeded OutputExistsSkipped = True"
| "succeeded (FileListed _) = True"
| "succeeded SymlinkCopied = True"
| "succeeded _ = False"

text \<open>\<open>process_one_file\<close>. The file system is seen through four observations:
  \<open>output_is_file_or_link\<close> and \<open>output_exists\<close> are the results of the
  \<open>does_exist\<close> calls on the output path, \<open>st\<close> is \<open>os.lstat(source_file)\<close> and
  \<open>source_text\<close> is what \<open>read_text\<close> returns for the source. The result is
  \<open>None\<close> when the call does not return. A source for which \<open>lstat\<close> or
  \<open>read_text\<close> itself raises is not part of the model.\<close>

definition process_one_file ::
  "bool \<Rightarrow> bool \<Rightarrow> stat_result \<Rightarrow> string \<Rightarrow> string option
   \<Rightarrow> bool \<Rightarrow> bool \<Rightarrow> bool \<Rightarrow> bool \<Rightarrow> bool \<Rightarrow> outcome option" where
  "process_one_file output_is_file_or_link output_exists st source_text checksum
     skip_existing flag_source_is_cfsfile flag_sha256 flag_data_only flag_data_and_time_only =
     (if output_is_file_or_link then
        (if skip_existing then Some OutputExistsSkipped else Some OutputExists)
      else if output_exists then Some OutputNameTaken
      else if \<not> S_ISREG (st_mode st) \<and> \<not> S_ISLNK (st_mode st) then Some NotRegularNorSymlink
      else if S_ISREG (st_mode st) then
        (if flag_source_is_cfsfile then
           (if st_size st > FORMAT_MAX_FILE_SIZE then Some (FileTooBig (st_size st))
            else
              (case read_cfsfile source_text (create_cfsfile_from_regularfile st) of
                 None \<Rightarrow> None
               | Some (Inl e) \<Rightarrow> Some (FailedToRead e)
               | Some (Inr cfs_file) \<Rightarrow>
                   Some (FileListed
                     (write_cfsfile_data cfs_file flag_data_only flag_data_and_time_only))))
         else
           Some (FileListed
             (write_cfsfile_data
                ((create_cfsfile_from_regularfile st)
                   \<lparr>sha256 := sha256_wrapper checksum flag_sha256\<rparr>)
                flag_data_only flag_data_and_time_only)))
      else Some SymlinkCopied)"

section \<open>Notions used in the statements and proofs\<close>

text \<open>A position moved by the length of a prefix; \<open>-1\<close>, "nothing found", stays.\<close>

definition shift_pos :: "nat \<Rightarrow> int \<Rightarrow> int" where
  "shift_pos n r = (if r = - 1 then - 1 else int n + r)"

definition shift_pair ::
  "nat \<Rightarrow> error + (int \<times> string \<times> string) \<Rightarrow> error + (int \<times> string \<times> string)" where
  "shift_pair n r = (case r of Inl e \<Rightarrow> Inl e | Inr (q, ov) \<Rightarrow> Inr (shift_pos n q, ov))"

text \<open>The end of the line that starts at \<open>p\<close>: the position of its line end, or
  the length of the text.\<close>

definition line_end_of :: "string \<Rightarrow> int \<Rightarrow> int" where
  "line_end_of d p =
     (if find_next_newline_in_string d p = - 1 then int (length d)
      else find_next_newline_in_string d p)"

text \<open>The names of the fields that are read as integers, and the field of a record by
  its name: \<open>get_num\<close> gives the number it holds, \<open>set_int\<close> stores an integer.\<close>

definition int_fields :: "string list" where
  "int_fields = [''size'', ''blocks'', ''mode'', ''uid'', ''gid'', ''atime'', ''mtime'',
     ''ctime'', ''atimensec'', ''mtimensec'', ''ctimensec'', ''nlink'', ''blksize'']"

definition get_num :: "string \<Rightarrow> CFSFile \<Rightarrow> real option" where
  "get_num name c =
     (if name = ''size'' then map_option real_of_int (size_f c)
      else if name = ''blocks'' then map_option real_of_int (blocks c)
      else if name = ''mode'' then map_option real_of_int (mode c)
      else if name = ''uid'' then map_option real_of_int (uid c)
      else if name = ''gid'' then map_option real_of_int (gid c)
      else if name = ''atime'' then atime c
      else if name = ''mtime'' then mtime c
      else if name = ''ctime'' then ctime c
      else if name = ''atimensec'' then map_option real_of_int (atimensec c)
      else if name = ''mtimensec'' then map_option real_of_int (mtimensec c)
      else if name = ''ctimensec'' then map_option real_of_int (ctimensec c)
      else if name = ''nlink'' then map_option real_of_int (nlink c)
      else if name = ''blksize'' then map_option real_of_int (blksize c)
      else None)"

definition set_int :: "string \<Rightarrow> int option \<Rightarrow> CFSFile \<Rightarrow> CFSFile" where
  "set_int name v c =
     (if name = ''size'' then c\<lparr>size_f := v\<rparr>
      else if name = ''blocks'' then c\<lparr>blocks := v\<rparr>
      else if name = ''mode'' then c\<lparr>mode := v\<rparr>
      else if name = ''uid'' then c\<lparr>uid := v\<rparr>
      else if name = ''gid'' then c\<lparr>gid := v\<rparr>
      else if name = ''atime'' then c\<lparr>atime := map_option real_of_int v\<rparr>
      else if name = ''mtime'' then c\<lparr>mtime := map_option real_of_int v\<rparr>
      else if name = ''ctime'' then c\<lparr>ctime := map_option real_of_int v\<rparr>
      else if name = ''atimensec'' then c\<lparr>atimensec := v\<rparr>
      else if name = ''mtimensec'' then c\<lparr>mtimensec := v\<rparr>
      else if name = ''ctimensec'' then c\<lparr>ctimensec := v\<rparr>
      else if name = ''nlink'' then c\<lparr>nlink := v\<rparr>
      else if name = ''blksize'' then c\<lparr>blksize := v\<rparr>
      else c)"

text \<open>The effect on the record of one written line: of an integer field, of a time,
  of a nanosecond field, of the hash.\<close>

definition put_int :: "string \<Rightarrow> int option \<Rightarrow> CFSFile \<Rightarrow> CFSFile" where
  "put_int name v c = (case v of None \<Rightarrow> c | Some n \<Rightarrow> set_int name (Some n) c)"

definition put_time :: "string \<Rightarrow> real option \<Rightarrow> CFSFile \<Rightarrow> CFSFile" where
  "put_time name v c = put_int name (map_option py_trunc v) c"

definition put_nsec :: "string \<Rightarrow> int option \<Rightarrow> CFSFile \<Rightarrow> CFSFile" where
  "put_nsec name v c =
     (case v of None \<Rightarrow> c | Some n \<Rightarrow> if n \<noteq> 0 then set_int name (Some n) c else c)"

definition put_hash :: "string option \<Rightarrow> CFSFile \<Rightarrow> CFSFile" where
  "put_hash v c = (case v of None \<Rightarrow> c | Some h \<Rightarrow> c\<lparr>sha256 := Some h\<rparr>)"

text \<open>A hash that is read back as it was written: it contains no line end and neither
  starts nor ends with a character the reader trims. Every string of hexadecimal
  digits is such a hash.\<close>

definition hash_ok :: "string option \<Rightarrow> bool" where
  "hash_ok v =
     (case v of
        None \<Rightarrow> True
      | Some h \<Rightarrow> LF \<notin> set h \<and> CR \<notin> set h \<and> py_strip FORMAT_TRIMMING_CHARS h = h)"

text \<open>A nanosecond value that is zero is written as if it were absent.\<close>

definition nonzero :: "int option \<Rightarrow> int option" where
  "nonzero v = (case v of None \<Rightarrow> None | Some n \<Rightarrow> if n \<noteq> 0 then Some n else None)"

text \<open>The fields a profile emits, taken from \<open>r\<close>; every other field is absent.\<close>

definition restrict_to :: "bool \<Rightarrow> bool \<Rightarrow> CFSFile \<Rightarrow> CFSFile" where
  "restrict_to flag_data_only flag_data_and_time_only r =
     (if flag_data_only then
        CFSFile_init\<lparr>size_f := size_f r, sha256 := sha256 r\<rparr>
      else if flag_data_and_time_only then
        CFSFile_init\<lparr>size_f := size_f r, mtime := mtime r,
          mtimensec := mtimensec r, sha256 := sha256 r\<rparr>
      else r)"

text \<open>Every time is cut to its whole seconds.\<close>

definition whole_seconds :: "CFSFile \<Rightarrow> CFSFile" where
  "whole_seconds r =
     r\<lparr>atime := map_option (\<lambda>x. real_of_int (py_trunc x)) (atime r),
       mtime := map_option (\<lambda>x. real_of_int (py_trunc x)) (mtime r),
       ctime := map_option (\<lambda>x. real_of_int (py_trunc x)) (ctime r)\<rparr>"

text \<open>A nanosecond field that is zero becomes absent.\<close>

definition drop_zero_nsec :: "CFSFile \<Rightarrow> CFSFile" where
  "drop_zero_nsec r =
     r\<lparr>atimensec := nonzero (atimensec r), mtimensec := nonzero (mtimensec r),
       ctimensec := nonzero (ctimensec r)\<rparr>"

definition preserved :: "bool \<Rightarrow> bool \<Rightarrow> CFSFile \<Rightarrow> CFSFile" where
  "preserved flag_data_only flag_data_and_time_only r =
     drop_zero_nsec (whole_seconds (restrict_to flag_data_only flag_data_and_time_only r))"

text \<open>A text of the current format is given by its lines, each a field name and the
  text of a value. A line is valid when its value has no line end in it and, for an
  integer field, is accepted by the reader of integers. \<open>last_value\<close> is the value on
  the last line with a given name.\<close>

definition render_line :: "string \<times> string \<Rightarrow> string" where
  "render_line nv = fst nv @ ''='' @ snd nv @ [LF]"

definition decoded_int :: "string \<Rightarrow> int option" where
  "decoded_int v = py_int (py_strip FORMAT_TRIMMING_CHARS v)"

definition valid_line :: "string \<times> string \<Rightarrow> bool" where
  "valid_line nv =
     (LF \<notin> set (snd nv) \<and> CR \<notin> set (snd nv)
      \<and> (fst nv = ''sha256'' \<or> (fst nv \<in> set int_fields \<and> decoded_int (snd nv) \<noteq> None)))"

definition last_value :: "string \<Rightarrow> (string \<times> string) list \<Rightarrow> string option" where
  "last_value name ls = map_option snd (List.find (\<lambda>nv. fst nv = name) (rev ls))"

definition apply_line :: "CFSFile \<Rightarrow> string \<times> string \<Rightarrow> CFSFile" where
  "apply_line c nv =
     (if fst nv = ''sha256'' then c\<lparr>sha256 := Some (py_strip FORMAT_TRIMMING_CHARS (snd nv))\<rparr>
      else set_int (fst nv) (decoded_int (snd nv)) c)"

section \<open>Facts about slices and searches\<close>

lemma py_clip_nat [simp]: "py_clip s (int n) = min n (length s)"
  by (simp add: py_clip_def Let_def)

lemma py_clip_0 [simp]: "py_clip s 0 = 0"
  by (simp add: py_clip_def)

lemma py_slice_nat: "py_slice s (int a) (int b) = take (b - a) (drop a s)"
proof (cases "a < length s")
  case True
  then show ?thesis
    by (cases "b \<le> length s") (simp_all add: py_slice_def min_def)
next
  case False
  then show ?thesis by (simp add: py_slice_def)
qed

lemma py_slice_0: "py_slice s 0 (int b) = take b s"
  using py_slice_nat [of s 0 b] by simp

lemma py_find_eqI:
  assumes "py_clip s a \<le> i" and "i + length sub \<le> py_clip s b"
    and "take (length sub) (drop i s) = sub"
    and "\<And>j. py_clip s a \<le> j \<Longrightarrow> j < i \<Longrightarrow> take (length sub) (drop j s) \<noteq> sub"
  shows "py_find s sub a b = int i"
proof -
  let ?P = "\<lambda>i. take (length sub) (drop i s) = sub"
  let ?xs = "[py_clip s a ..< Suc (py_clip s b) - length sub]"
  have len: "i - py_clip s a < length ?xs" using assms(1,2) by simp
  have at: "?xs ! (i - py_clip s a) = i" using assms(1,2) by simp
  have "List.find ?P ?xs = Some i"
    unfolding find_Some_iff
  proof (intro exI [of _ "i - py_clip s a"] conjI allI impI)
    show "i - py_clip s a < length ?xs" by (rule len)
    show "?P (?xs ! (i - py_clip s a))" using at assms(3) by simp
    show "i = ?xs ! (i - py_clip s a)" using at by simp
  next
    fix j assume j: "j < i - py_clip s a"
    then have "?xs ! j = py_clip s a + j" using len by simp
    moreover have "\<not> ?P (py_clip s a + j)" using assms(4) [of "py_clip s a + j"] j by simp
    ultimately show "\<not> ?P (?xs ! j)" by simp
  qed
  then show ?thesis by (simp add: py_find_def)
qed

lemma py_find_noneI:
  assumes "\<And>j. py_clip s a \<le> j \<Longrightarrow> j + length sub \<le> py_clip s b
             \<Longrightarrow> take (length sub) (drop j s) \<noteq> sub"
  shows "py_find s sub a b = - 1"
proof -
  have "List.find (\<lambda>i. take (length sub) (drop i s) = sub)
          [py_clip s a ..< Suc (py_clip s b) - length sub] = None"
    unfolding find_None_iff using assms by auto
  then show ?thesis by (simp add: py_find_def)
qed

lemma py_slice_ge0:
  "0 \<le> a \<Longrightarrow> 0 \<le> b \<Longrightarrow> py_slice s a b = take (nat b - nat a) (drop (nat a) s)"
  using py_slice_nat [of s "nat a" "nat b"] by simp

lemma take1_drop_append:
  "j < length u \<Longrightarrow> c \<notin> set u \<Longrightarrow> take (Suc 0) (drop j (u @ v)) \<noteq> [c]"
proof -
  assume j: "j < length u" and c: "c \<notin> set u"
  then obtain x xs where d: "drop j u = x # xs" by (cases "drop j u") auto
  then have "x \<in> set (drop j u)" by simp
  then have "x \<noteq> c" using c by (auto dest: in_set_dropD)
  then show ?thesis using j d by simp
qed

lemma py_find_char_first:
  assumes "c \<notin> set u" and "a \<le> length u" and "length u < b"
  shows "py_find (u @ c # v) [c] (int a) (int b) = int (length u)"
proof (rule py_find_eqI)
  show "py_clip (u @ c # v) (int a) \<le> length u" using assms by simp
  show "length u + length [c] \<le> py_clip (u @ c # v) (int b)" using assms by simp
  show "take (length [c]) (drop (length u) (u @ c # v)) = [c]" by simp
  fix j assume "j < length u"
  then show "take (length [c]) (drop j (u @ c # v)) \<noteq> [c]"
    using assms(1) take1_drop_append [of j u c] by simp
qed

lemma py_find_char_none:
  assumes "c \<notin> set u"
  shows "py_find (u @ v) [c] a (int (length u)) = - 1"
proof (rule py_find_noneI)
  fix j assume "j + length [c] \<le> py_clip (u @ v) (int (length u))"
  then have "j < length u" by simp
  then show "take (length [c]) (drop j (u @ v)) \<noteq> [c]"
    using assms take1_drop_append [of j u c] by simp
qed

lemma old_format_no_newline:
  assumes "LF \<notin> set data"
  shows "old_format_fill_cfsfile_from_string data c = Some (Inl NoValidHeader)"
proof -
  have "py_find data [LF] 0 (int (length data)) = - 1"
    using py_find_char_none [of LF data "[]" 0] assms by simp
  then show ?thesis by (simp add: old_format_fill_cfsfile_from_string_def)
qed

lemma old_format_header:
  assumes "LF \<notin> set h"
  shows "old_format_fill_cfsfile_from_string (h @ LF # b) c =
    (if \<not> py_startswith h FORMAT_HEADER_PREFIX_OLD_FORMAT then Some (Inl NoValidHeader)
     else case py_int (drop 15 h) of
       None \<Rightarrow> Some (Inl (InvalidVersionString (drop 15 h)))
     | Some v \<Rightarrow>
         if v \<noteq> 1 \<and> v \<noteq> 2 then Some (Inl (InvalidOldFormatVersion v))
         else old_format_body_loop b 0 c)"
proof -
  have f: "py_find (h @ LF # b) [LF] 0 (int (length (h @ LF # b))) = int (length h)"
    using py_find_char_first [of LF h 0 "length (h @ LF # b)" b] assms by simp
  have hd: "py_slice (h @ LF # b) 0 (int (length h)) = h"
    by (simp add: py_slice_0)
  have len: "length FORMAT_HEADER_PREFIX_OLD_FORMAT = 15"
    by (simp add: FORMAT_HEADER_PREFIX_OLD_FORMAT_def)
  have vs: "py_slice h 15 (int (length h)) = drop 15 h"
    using py_slice_nat [of h 15 "length h"] by simp
  have n: "nat (int (length h) + 1) = Suc (length h)"
    by simp
  show ?thesis
    unfolding old_format_fill_cfsfile_from_string_def Let_def f
    by (simp add: hd len vs py_slice_ge0 n old_format_fill_cfsfile_body_from_string_def
          CFSFILE_VERSION_1_def CFSFILE_VERSION_2_def split: option.splits)
qed

section \<open>The old formats: a loop that does not end\<close>

text \<open>The body \<open>size: 5\<close>, newline, one space: the last line has no newline at its
  end. \<open>find\<close> returns \<open>-1\<close> for \<open>line_end\<close>, the slice \<open>data[8:-1]\<close> is empty, and
  \<open>current_pos\<close> becomes \<open>line_end + 1 = 0\<close>: the loop starts over.\<close>

lemma step0: "old_format_body_step (''size: 5'' @ [LF] @ '' '') 0 c = Inr (8, c\<lparr>size_f := Some 5\<rparr>)"
  by code_simp

lemma step8: "old_format_body_step (''size: 5'' @ [LF] @ '' '') 8 c = Inr (0, c)"
  by code_simp

lemma body_loop_cycles:
  assumes "old_format_body_loop d p c = Some y"
  shows "\<not> (d = ''size: 5'' @ [LF] @ '' '' \<and> (p = 0 \<or> p = 8))"
proof (rule old_format_body_loop.raw_induct [OF _ assms])
  fix f :: "string \<Rightarrow> int \<Rightarrow> CFSFile \<Rightarrow> (error + CFSFile) option"
  fix data current_pos cfs_file r
  assume IH: "\<And>d p c y. f d p c = Some y
                \<Longrightarrow> \<not> (d = ''size: 5'' @ [LF] @ '' '' \<and> (p = 0 \<or> p = 8))"
  assume st: "(if current_pos < int (length data)
               then case old_format_body_step data current_pos cfs_file of
                      Inl e \<Rightarrow> Some (Inl e)
                    | Inr (new_pos, cfs_file') \<Rightarrow> f data new_pos cfs_file'
               else Some (Inr cfs_file)) = Some r"
  show "\<not> (data = ''size: 5'' @ [LF] @ '' '' \<and> (current_pos = 0 \<or> current_pos = 8))"
  proof
    assume a: "data = ''size: 5'' @ [LF] @ '' '' \<and> (current_pos = 0 \<or> current_pos = 8)"
    then consider "current_pos = 0" | "current_pos = 8" by blast
    then show False
    proof cases
      case 1
      with a st have "f data 8 (cfs_file\<lparr>size_f := Some 5\<rparr>) = Some r"
        using step0 [of cfs_file] by simp
      from IH [OF this] a show False by simp
    next
      case 2
      with a st have "f data 0 cfs_file = Some r"
        using step8 [of cfs_file] by simp
      from IH [OF this] a show False by simp
    qed
  qed
qed

text \<open>
  \<^bold>\<open>C2\<close>. The claim: decoding ends for every input, with a record or with an error, and
  the body of the old formats is parsed to the end even when the last line of the input
  has no newline after it. The code does not do that: on the text below, a record of
  the old format whose last line is a single space without a newline, the reader never
  returns.
\<close>

theorem legacy_hang:
  "read_cfsfile (''CatalogFS.File.1'' @ [LF] @ ''size: 5'' @ [LF] @ '' '') CFSFile_init = None"
proof -
  have "old_format_body_loop (''size: 5'' @ [LF] @ '' '') 0 CFSFile_init = None"
    using body_loop_cycles [of "''size: 5'' @ [LF] @ '' ''" 0 CFSFile_init]
    by (cases "old_format_body_loop (''size: 5'' @ [LF] @ '' '') 0 CFSFile_init") auto
  moreover have "py_int (drop 15 ''CatalogFS.File.1'') = Some 1" by code_simp
  moreover have "is_old_format_cfsfile (''CatalogFS.File.1'' @ [LF] @ ''size: 5'' @ [LF] @ '' '')"
    by code_simp
  moreover have "py_startswith ''CatalogFS.File.1'' FORMAT_HEADER_PREFIX_OLD_FORMAT" by code_simp
  ultimately show ?thesis
    using old_format_header [of "''CatalogFS.File.1''" "''size: 5'' @ [LF] @ '' ''" CFSFile_init]
    by (simp add: read_cfsfile_def)
qed

section \<open>The old formats: versions 1 and 2\<close>

text \<open>
  \<^bold>\<open>C6\<close>. For every body text, the record with the header \<open>CatalogFS.File.1\<close> and the
  record with the header \<open>CatalogFS.File.2\<close> are read alike: the same record when
  reading succeeds, and also the same error, and the same failure to return, when it
  does not.
\<close>

theorem legacy_version_equiv:
  "read_cfsfile (''CatalogFS.File.1'' @ [LF] @ b) c = read_cfsfile (''CatalogFS.File.2'' @ [LF] @ b) c"
proof -
  have 1: "py_int (drop 15 ''CatalogFS.File.1'') = Some 1" by code_simp
  have 2: "py_int (drop 15 ''CatalogFS.File.2'') = Some 2" by code_simp
  have s1: "py_startswith ''CatalogFS.File.1'' FORMAT_HEADER_PREFIX_OLD_FORMAT" by code_simp
  have s2: "py_startswith ''CatalogFS.File.2'' FORMAT_HEADER_PREFIX_OLD_FORMAT" by code_simp
  have o1: "is_old_format_cfsfile (''CatalogFS.File.1'' @ [LF] @ b)"
    by (simp add: is_old_format_cfsfile_def py_startswith_def FORMAT_HEADER_PREFIX_OLD_FORMAT_def)
  have o2: "is_old_format_cfsfile (''CatalogFS.File.2'' @ [LF] @ b)"
    by (simp add: is_old_format_cfsfile_def py_startswith_def FORMAT_HEADER_PREFIX_OLD_FORMAT_def)
  have "read_cfsfile (''CatalogFS.File.1'' @ [LF] @ b) c = old_format_body_loop b 0 c"
    using old_format_header [of "''CatalogFS.File.1''" b c] 1 s1 o1
    by (simp add: read_cfsfile_def)
  moreover have "read_cfsfile (''CatalogFS.File.2'' @ [LF] @ b) c = old_format_body_loop b 0 c"
    using old_format_header [of "''CatalogFS.File.2''" b c] 2 s2 o2
    by (simp add: read_cfsfile_def)
  ultimately show ?thesis by simp
qed

section \<open>Facts about the reader of the current format\<close>

text \<open>The reader works with positions in the whole text. What it does from a position on
  depends only on the text from that position on: a prefix moves every position by its
  length and changes nothing else.\<close>

lemma py_clip_shift: "0 \<le> a \<Longrightarrow> py_clip (pre @ d) (int (length pre) + a) = length pre + py_clip d a"
  by (simp add: py_clip_def Let_def min_def nat_add_distrib)

lemma py_clip_ge0: "0 \<le> a \<Longrightarrow> py_clip s a = min (nat a) (length s)"
  using py_clip_nat [of s "nat a"] by simp

lemma py_find_cases:
  obtains (none) "py_find s sub a b = - 1"
      "\<And>j. py_clip s a \<le> j \<Longrightarrow> j + length sub \<le> py_clip s b
             \<Longrightarrow> take (length sub) (drop j s) \<noteq> sub"
  | (some) i where "py_find s sub a b = int i" "py_clip s a \<le> i"
      "i + length sub \<le> py_clip s b" "take (length sub) (drop i s) = sub"
      "\<And>j. py_clip s a \<le> j \<Longrightarrow> j < i \<Longrightarrow> take (length sub) (drop j s) \<noteq> sub"
proof -
  let ?P = "\<lambda>i. take (length sub) (drop i s) = sub"
  let ?lo = "py_clip s a"
  let ?xs = "[?lo ..< Suc (py_clip s b) - length sub]"
  show thesis
  proof (cases "List.find ?P ?xs")
    case None
    then have f: "py_find s sub a b = - 1" by (simp add: py_find_def)
    have "\<And>j. ?lo \<le> j \<Longrightarrow> j + length sub \<le> py_clip s b \<Longrightarrow> \<not> ?P j"
    proof -
      fix j assume "?lo \<le> j" "j + length sub \<le> py_clip s b"
      then have "j \<in> set ?xs" by simp
      with None show "\<not> ?P j" unfolding find_None_iff by blast
    qed
    with f show thesis by (rule none)
  next
    case (Some i)
    then have f: "py_find s sub a b = int i" by (simp add: py_find_def)
    from Some obtain k where k: "k < length ?xs" "?P (?xs ! k)" "i = ?xs ! k"
      "\<forall>j<k. \<not> ?P (?xs ! j)"
      unfolding find_Some_iff by blast
    from k(1,3) have i: "i = ?lo + k" by simp
    from k(1) i have hi: "i + length sub \<le> py_clip s b" by simp
    have min: "\<And>j. ?lo \<le> j \<Longrightarrow> j < i \<Longrightarrow> \<not> ?P j"
    proof -
      fix j assume j: "?lo \<le> j" "j < i"
      then have "j - ?lo < k" using i by simp
      with k(4) have "\<not> ?P (?xs ! (j - ?lo))" by blast
      moreover have "?xs ! (j - ?lo) = j" using j k(1) i by simp
      ultimately show "\<not> ?P j" by simp
    qed
    show thesis
      by (rule some [of i]) (use f i hi k(2,3) min in auto)
  qed
qed

lemma py_find_shift:
  assumes "0 \<le> a" and "0 \<le> b"
  shows "py_find (pre @ d) sub (int (length pre) + a) (int (length pre) + b) =
         shift_pos (length pre) (py_find d sub a b)"
proof (cases rule: py_find_cases [of d sub a b])
  case none
  have "py_find (pre @ d) sub (int (length pre) + a) (int (length pre) + b) = - 1"
  proof (rule py_find_noneI)
    fix j
    assume 1: "py_clip (pre @ d) (int (length pre) + a) \<le> j"
      and 2: "j + length sub \<le> py_clip (pre @ d) (int (length pre) + b)"
    from 1 assms have lo: "length pre + py_clip d a \<le> j" by (simp add: py_clip_shift)
    from 2 assms have hi: "j + length sub \<le> length pre + py_clip d b" by (simp add: py_clip_shift)
    from lo hi none(2) [of "j - length pre"]
    have "take (length sub) (drop (j - length pre) d) \<noteq> sub" by simp
    with lo show "take (length sub) (drop j (pre @ d)) \<noteq> sub" by simp
  qed
  with none(1) show ?thesis by (simp add: shift_pos_def)
next
  case (some i)
  have "py_find (pre @ d) sub (int (length pre) + a) (int (length pre) + b) = int (length pre + i)"
  proof (rule py_find_eqI)
    show "py_clip (pre @ d) (int (length pre) + a) \<le> length pre + i"
      using some(2) assms by (simp add: py_clip_shift)
    show "length pre + i + length sub \<le> py_clip (pre @ d) (int (length pre) + b)"
      using some(3) assms by (simp add: py_clip_shift)
    show "take (length sub) (drop (length pre + i) (pre @ d)) = sub"
      using some(4) by simp
    fix j
    assume 1: "py_clip (pre @ d) (int (length pre) + a) \<le> j" and 2: "j < length pre + i"
    from 1 assms have lo: "length pre + py_clip d a \<le> j" by (simp add: py_clip_shift)
    from lo 2 some(5) [of "j - length pre"]
    have "take (length sub) (drop (j - length pre) d) \<noteq> sub" by simp
    with lo show "take (length sub) (drop j (pre @ d)) \<noteq> sub" by simp
  qed
  with some(1) show ?thesis by (simp add: shift_pos_def)
qed

lemma py_slice_shift:
  assumes "0 \<le> a" and "0 \<le> b"
  shows "py_slice (pre @ d) (int (length pre) + a) (int (length pre) + b) = py_slice d a b"
  using assms by (simp add: py_slice_ge0 nat_add_distrib)

lemma find_next_newline_shift:
  "0 \<le> p \<Longrightarrow>
   find_next_newline_in_string (pre @ d) (int (length pre) + p) =
   shift_pos (length pre) (find_next_newline_in_string d p)"
proof (induction d p rule: find_next_newline_in_string.induct)
  case (1 s i)
  have nth: "(pre @ s) ! nat (int (length pre) + i) = s ! nat i"
    using "1.prems" by (simp add: nth_append nat_add_distrib)
  show ?case
  proof (cases "i < int (length s)")
    case False
    then show ?thesis
      by (subst (1 2) find_next_newline_in_string.simps) (simp add: shift_pos_def)
  next
    case True
    show ?thesis
    proof (cases "[s ! nat i] = FORMAT_NEW_LINE_CHAR \<or> [s ! nat i] = FORMAT_NEW_LINE_CHAR_2")
      case nl: True
      with True "1.prems" show ?thesis
        by (subst (1 2) find_next_newline_in_string.simps) (auto simp: nth shift_pos_def)
    next
      case nonl: False
      from "1.IH" [OF True nonl] "1.prems"
      have "find_next_newline_in_string (pre @ s) (int (length pre) + (i + 1)) =
            shift_pos (length pre) (find_next_newline_in_string s (i + 1))" by simp
      with True nonl show ?thesis
        by (subst (1 2) find_next_newline_in_string.simps) (simp add: nth add.assoc)
    qed
  qed
qed


lemma line_end_of_ge: "p \<le> int (length d) \<Longrightarrow> p \<le> line_end_of d p"
  using find_next_newline_ge [of d p] by (auto simp: line_end_of_def)

lemma line_end_of_shift:
  "0 \<le> p \<Longrightarrow> line_end_of (pre @ d) (int (length pre) + p) = int (length pre) + line_end_of d p"
  using find_next_newline_ge [of d p]
  by (auto simp: line_end_of_def find_next_newline_shift shift_pos_def)

lemma next_pair_unfold:
  "cfsfile_get_next_option_pair d p =
     (if p < int (length d) then
        (if py_find d ''='' p (line_end_of d p) = - 1 then
           (if py_strip FORMAT_TRIMMING_CHARS (py_slice d p (line_end_of d p)) \<noteq> []
            then Inl InvalidString
            else cfsfile_get_next_option_pair d (line_end_of d p + 1))
         else Inr (line_end_of d p + 1,
                   py_strip FORMAT_TRIMMING_CHARS (py_slice d p (py_find d ''='' p (line_end_of d p))),
                   py_slice d (py_find d ''='' p (line_end_of d p) + 1) (line_end_of d p)))
      else Inr (- 1, [], []))"
  by (subst cfsfile_get_next_option_pair.simps)
     (simp add: Let_def line_end_of_def FORMAT_FIELD_DELIMITER_def FORMAT_NEW_LINE_LENGTH_def)

lemma py_find_ge0: "py_find s sub a b = - 1 \<or> 0 \<le> py_find s sub a b"
  by (cases rule: py_find_cases [of s sub a b]) auto

lemma next_pair_shift:
  "0 \<le> p \<Longrightarrow>
   cfsfile_get_next_option_pair (pre @ d) (int (length pre) + p) =
   shift_pair (length pre) (cfsfile_get_next_option_pair d p)"
proof (induction "nat (int (length d) - p)" arbitrary: p rule: less_induct)
  case less
  let ?n = "int (length pre)"
  let ?e = "line_end_of d p"
  let ?f = "py_find d ''='' p ?e"
  show ?case
  proof (cases "p < int (length d)")
    case False
    then show ?thesis
      by (subst next_pair_unfold, subst (2) next_pair_unfold) (simp add: shift_pair_def shift_pos_def)
  next
    case True
    with less.prems have e: "p \<le> ?e" "0 \<le> ?e" using line_end_of_ge [of p d] by auto
    have le: "line_end_of (pre @ d) (?n + p) = ?n + ?e"
      using less.prems by (rule line_end_of_shift)
    have fd: "py_find (pre @ d) ''='' (?n + p) (?n + ?e) = shift_pos (length pre) ?f"
      using less.prems e by (intro py_find_shift) auto
    have sl: "py_slice (pre @ d) (?n + p) (?n + ?e) = py_slice d p ?e"
      using less.prems e by (intro py_slice_shift) auto
    show ?thesis
    proof (cases "?f = - 1")
      case none: True
      show ?thesis
      proof (cases "py_strip FORMAT_TRIMMING_CHARS (py_slice d p ?e) \<noteq> []")
        case True
        with none \<open>p < int (length d)\<close> show ?thesis
          by (subst next_pair_unfold, subst (2) next_pair_unfold)
             (simp add: le fd sl shift_pair_def shift_pos_def)
      next
        case blank: False
        have "nat (int (length d) - (?e + 1)) < nat (int (length d) - p)"
          using e True by simp
        from less.hyps [OF this] e
        have "cfsfile_get_next_option_pair (pre @ d) (?n + (?e + 1)) =
              shift_pair (length pre) (cfsfile_get_next_option_pair d (?e + 1))" by simp
        with none blank True show ?thesis
          by (subst next_pair_unfold, subst (2) next_pair_unfold)
             (simp add: le fd sl shift_pos_def add.assoc)
      qed
    next
      case some: False
      with py_find_ge0 [of d "''=''" p ?e] have f0: "0 \<le> ?f" by auto
      have s1: "py_slice (pre @ d) (?n + p) (?n + ?f) = py_slice d p ?f"
        using less.prems f0 by (intro py_slice_shift) auto
      have s2: "py_slice (pre @ d) (?n + (?f + 1)) (?n + ?e) = py_slice d (?f + 1) ?e"
        using e f0 by (intro py_slice_shift) auto
      from some True f0 e show ?thesis
        by (subst next_pair_unfold, subst (2) next_pair_unfold)
           (simp add: le fd s1 s2 shift_pair_def shift_pos_def add.assoc)
    qed
  qed
qed

lemma next_pair_result:
  assumes "0 \<le> p" and "cfsfile_get_next_option_pair d p = Inr (q, opt, v)"
  shows "(q = - 1 \<and> opt = [] \<and> v = []) \<or> p < q"
  using assms
proof (induction "nat (int (length d) - p)" arbitrary: p rule: less_induct)
  case less
  show ?case
  proof (cases "p < int (length d)")
    case False
    with less.prems(2) show ?thesis by (subst (asm) next_pair_unfold) simp
  next
    case True
    with less.prems have e: "p \<le> line_end_of d p" using line_end_of_ge [of p d] by auto
    show ?thesis
    proof (cases "py_find d ''='' p (line_end_of d p) = - 1")
      case none: True
      show ?thesis
      proof (cases "py_strip FORMAT_TRIMMING_CHARS (py_slice d p (line_end_of d p)) \<noteq> []")
        case True
        with none \<open>p < int (length d)\<close> less.prems(2) show ?thesis
          by (subst (asm) next_pair_unfold) simp
      next
        case False
        with none True less.prems(2)
        have r: "cfsfile_get_next_option_pair d (line_end_of d p + 1) = Inr (q, opt, v)"
          by (subst (asm) next_pair_unfold) simp
        have "nat (int (length d) - (line_end_of d p + 1)) < nat (int (length d) - p)"
          using e True by simp
        from less.hyps [OF this _ r] e less.prems(1) show ?thesis by auto
      qed
    next
      case False
      with True less.prems(2) e show ?thesis
        by (subst (asm) next_pair_unfold) auto
    qed
  qed
qed

lemma fill_loop_unfold_shift:
  assumes "0 \<le> p"
  shows "fill_cfsfile_loop (pre @ d) (int (length pre) + p) c =
     (case cfsfile_get_next_option_pair d p of
        Inl e \<Rightarrow> Inl e
      | Inr (q, opt, v) \<Rightarrow>
          if q = - 1 then Inr c
          else
            (case fill_cfsfile_param opt v c of
               Inl e \<Rightarrow> Inl e
             | Inr c' \<Rightarrow> fill_cfsfile_loop (pre @ d) (int (length pre) + q) c'))"
proof (cases "cfsfile_get_next_option_pair d p")
  case (Inl e)
  with assms show ?thesis
    by (subst fill_cfsfile_loop.simps) (simp add: next_pair_shift shift_pair_def)
next
  case (Inr t)
  obtain q opt v where t: "t = (q, opt, v)" by (cases t)
  from next_pair_result [OF assms Inr [unfolded t]] assms
  have "q = - 1 \<or> 0 \<le> q" by auto
  with Inr t assms show ?thesis
    by (subst fill_cfsfile_loop.simps)
       (auto simp: next_pair_shift shift_pair_def shift_pos_def split: sum.splits)
qed

lemma fill_loop_shift:
  "0 \<le> p \<Longrightarrow>
   fill_cfsfile_loop (pre @ d) (int (length pre) + p) c = fill_cfsfile_loop d p c"
proof (induction d p c rule: fill_cfsfile_loop.induct)
  case (1 data current_pos cfs_file)
  note L = fill_loop_unfold_shift [OF "1.prems", of pre data cfs_file]
  note R = fill_cfsfile_loop.simps [of data current_pos cfs_file]
  show ?case
  proof (cases "cfsfile_get_next_option_pair data current_pos")
    case (Inl e)
    with L R show ?thesis by simp
  next
    case (Inr t)
    obtain q opt v where t: "t = (q, opt, v)" by (cases t)
    show ?thesis
    proof (cases "q = - 1")
      case True
      with Inr t L R show ?thesis by simp
    next
      case False
      with next_pair_result [OF "1.prems" Inr [unfolded t]] "1.prems"
      have q0: "0 \<le> q" by simp
      show ?thesis
      proof (cases "fill_cfsfile_param opt v cfs_file")
        case (Inl e)
        with Inr t False L R show ?thesis by simp
      next
        case r: (Inr c')
        from "1.IH" [OF Inr, of q "(opt, v)" opt v c'] False t r q0
        have "fill_cfsfile_loop (pre @ data) (int (length pre) + q) c' = fill_cfsfile_loop data q c'"
          by simp
        with Inr t False r L R show ?thesis by simp
      qed
    qed
  qed
qed

lemma find_next_newline_skip_prefix:
  assumes "LF \<notin> set u" and "CR \<notin> set u"
  shows "find_next_newline_in_string (u @ r) 0 =
         shift_pos (length u) (find_next_newline_in_string r 0)"
  using assms
proof (induction u)
  case Nil
  have "find_next_newline_in_string r 0 = - 1 \<or> 0 \<le> find_next_newline_in_string r 0"
    by (rule find_next_newline_ge)
  then show ?case by (auto simp: shift_pos_def)
next
  case (Cons c u)
  have "find_next_newline_in_string (c # u @ r) 0 = find_next_newline_in_string (c # u @ r) 1"
    using Cons.prems
    by (subst find_next_newline_in_string.simps)
       (auto simp: FORMAT_NEW_LINE_CHAR_def FORMAT_NEW_LINE_CHAR_2_def)
  also have "\<dots> = shift_pos 1 (find_next_newline_in_string (u @ r) 0)"
    using find_next_newline_shift [of 0 "[c]" "u @ r"] by simp
  also have "\<dots> = shift_pos 1 (shift_pos (length u) (find_next_newline_in_string r 0))"
    using Cons by simp
  also have "\<dots> = shift_pos (length (c # u)) (find_next_newline_in_string r 0)"
    using find_next_newline_ge [of r 0] by (auto simp: shift_pos_def)
  finally show ?case by simp
qed

lemma line_end_of_line:
  assumes "LF \<notin> set u" and "CR \<notin> set u" and "r = [] \<or> hd r = LF \<or> hd r = CR"
  shows "line_end_of (u @ r) 0 = int (length u)"
proof (cases r)
  case Nil
  have "find_next_newline_in_string [] 0 = - 1"
    by (subst find_next_newline_in_string.simps) simp
  with Nil show ?thesis
    using find_next_newline_skip_prefix [OF assms(1,2), of "[]"]
    by (simp add: line_end_of_def shift_pos_def)
next
  case (Cons c r')
  with assms(3) have "find_next_newline_in_string r 0 = 0"
    by (subst find_next_newline_in_string.simps)
       (auto simp: FORMAT_NEW_LINE_CHAR_def FORMAT_NEW_LINE_CHAR_2_def)
  then show ?thesis
    using find_next_newline_skip_prefix [OF assms(1,2), of r]
    by (simp add: line_end_of_def shift_pos_def)
qed

lemma next_pair_line:
  assumes "CHR ''='' \<notin> set name"
    and "LF \<notin> set (name @ v)" and "CR \<notin> set (name @ v)"
    and "r = [] \<or> hd r = LF \<or> hd r = CR"
  shows "cfsfile_get_next_option_pair (name @ CHR ''='' # v @ r) 0 =
         Inr (int (length name + length v) + 2, py_strip FORMAT_TRIMMING_CHARS name, v)"
proof -
  let ?u = "name @ CHR ''='' # v"
  have le: "line_end_of (?u @ r) 0 = int (length ?u)"
    using assms by (intro line_end_of_line) auto
  have fd: "py_find (?u @ r) ''='' 0 (int (length ?u)) = int (length name)"
    using py_find_char_first [of "CHR ''=''" name 0 "length ?u" "v @ r"] assms(1) by simp
  have s1: "py_slice (?u @ r) 0 (int (length name)) = name"
    by (simp add: py_slice_0)
  have s2: "py_slice (?u @ r) (int (length name) + 1) (int (length ?u)) = v"
    by (simp add: py_slice_ge0 nat_add_distrib)
  have "cfsfile_get_next_option_pair (?u @ r) 0 =
        Inr (int (length ?u) + 1, py_strip FORMAT_TRIMMING_CHARS name, v)"
    by (subst next_pair_unfold) (simp add: le fd s1 s2 del: append_assoc length_append)
  then show ?thesis by simp
qed

lemma fill_loop_nil: "fill_cfsfile_loop [] 0 c = Inr c"
  by (subst fill_cfsfile_loop.simps, subst next_pair_unfold) simp

lemma fill_loop_line:
  assumes "CHR ''='' \<notin> set name"
    and "LF \<notin> set (name @ v)" and "CR \<notin> set (name @ v)"
    and "nl = LF \<or> nl = CR"
  shows "fill_cfsfile_loop (name @ CHR ''='' # v @ nl # rest) 0 c =
         (case fill_cfsfile_param (py_strip FORMAT_TRIMMING_CHARS name) v c of
            Inl e \<Rightarrow> Inl e
          | Inr c' \<Rightarrow> fill_cfsfile_loop rest 0 c')"
proof -
  let ?pre = "name @ CHR ''='' # v @ [nl]"
  have np: "cfsfile_get_next_option_pair (name @ CHR ''='' # v @ nl # rest) 0 =
            Inr (int (length name + length v) + 2, py_strip FORMAT_TRIMMING_CHARS name, v)"
    using assms by (intro next_pair_line) auto
  have sh: "fill_cfsfile_loop (name @ CHR ''='' # v @ nl # rest)
              (int (length name) + int (length v) + 2) c'
            = fill_cfsfile_loop rest 0 c'" for c'
    using fill_loop_shift [of 0 ?pre rest c'] by (simp add: add.commute add.left_commute)
  show ?thesis
    by (subst fill_cfsfile_loop.simps) (simp add: np sh split: sum.splits)
qed

section \<open>Blank text before the header\<close>

lemma py_strip_cons_trim: "c \<in> set chars \<Longrightarrow> py_strip chars (c # x) = py_strip chars x"
  by (simp add: py_strip_def)

lemma py_find_skip_first:
  assumes "take (length sub) (c # s) \<noteq> sub"
  shows "py_find (c # s) sub 0 b = py_find (c # s) sub 1 b"
proof (cases rule: py_find_cases [of "c # s" sub 1 b])
  case none
  have "py_find (c # s) sub 0 b = - 1"
  proof (rule py_find_noneI)
    fix j assume "j + length sub \<le> py_clip (c # s) b"
    then show "take (length sub) (drop j (c # s)) \<noteq> sub"
      using none(2) [of j] assms by (cases j) (auto simp: py_clip_ge0)
  qed
  with none(1) show ?thesis by simp
next
  case (some i)
  have "py_find (c # s) sub 0 b = int i"
  proof (rule py_find_eqI)
    show "py_clip (c # s) 0 \<le> i" by simp
    show "i + length sub \<le> py_clip (c # s) b" by (rule some(3))
    show "take (length sub) (drop i (c # s)) = sub" by (rule some(4))
    fix j assume "j < i"
    then show "take (length sub) (drop j (c # s)) \<noteq> sub"
      using some(5) [of j] assms by (cases j) (auto simp: py_clip_ge0)
  qed
  with some(1) show ?thesis by simp
qed

lemma shift_pair_1:
  assumes "0 \<le> p"
  shows "cfsfile_get_next_option_pair (c # s) (1 + p) =
         shift_pair 1 (cfsfile_get_next_option_pair s p)"
  using next_pair_shift [OF assms, of "[c]" s] by simp

lemma next_pair_ws_char:
  assumes "c \<in> set FORMAT_TRIMMING_CHARS"
  shows "cfsfile_get_next_option_pair (c # s) 0 = shift_pair 1 (cfsfile_get_next_option_pair s 0)"
proof (cases "c = LF \<or> c = CR")
  case True
  have le: "line_end_of (c # s) 0 = 0"
    using line_end_of_line [of "[]" "c # s"] True by auto
  have fd: "py_find (c # s) ''='' 0 0 = - 1"
    by (rule py_find_noneI) simp
  have "cfsfile_get_next_option_pair (c # s) 0 = cfsfile_get_next_option_pair (c # s) 1"
    by (subst next_pair_unfold) (simp add: le fd py_slice_def py_strip_def)
  then show ?thesis using shift_pair_1 [of 0 c s] by simp
next
  case False
  with assms have c: "c = CHR '' '' \<or> c = TAB" by (auto simp: FORMAT_TRIMMING_CHARS_def)
  have fnl: "find_next_newline_in_string (c # s) 0 =
             shift_pos 1 (find_next_newline_in_string s 0)"
    using find_next_newline_skip_prefix [of "[c]" s] False by auto
  have le: "line_end_of (c # s) 0 = 1 + line_end_of s 0"
    using find_next_newline_ge [of s 0] by (auto simp: line_end_of_def fnl shift_pos_def)
  have e0: "0 \<le> line_end_of s 0" using line_end_of_ge [of 0 s] by simp
  have fd: "py_find (c # s) ''='' 0 (1 + line_end_of s 0) =
            shift_pos 1 (py_find s ''='' 0 (line_end_of s 0))"
  proof -
    have "py_find (c # s) ''='' 0 (1 + line_end_of s 0) =
          py_find (c # s) ''='' 1 (1 + line_end_of s 0)"
      using c by (intro py_find_skip_first) auto
    also have "\<dots> = shift_pos 1 (py_find s ''='' 0 (line_end_of s 0))"
      using py_find_shift [of 0 "line_end_of s 0" "[c]" s "''=''"] e0 by simp
    finally show ?thesis .
  qed
  have sl: "0 \<le> b \<Longrightarrow> py_slice (c # s) 0 (1 + b) = c # py_slice s 0 b" for b
    by (simp add: py_slice_ge0 nat_add_distrib)
  have sv: "0 \<le> a \<Longrightarrow> 0 \<le> b \<Longrightarrow> py_slice (c # s) (1 + a) (1 + b) = py_slice s a b" for a b
    using py_slice_shift [of a b "[c]" s] by simp
  show ?thesis
  proof (cases "s = []")
    case True
    have "py_find [c] ''='' 0 1 = - 1"
      using c by (intro py_find_noneI) (auto simp: py_clip_ge0)
    moreover have "line_end_of [c] 0 = 1"
      using le True by (simp add: line_end_of_def find_next_newline_in_string.simps)
    moreover have "py_strip FORMAT_TRIMMING_CHARS (py_slice [c] 0 1) = []"
      using assms by (simp add: py_slice_ge0 py_strip_def)
    moreover have "cfsfile_get_next_option_pair [c] 2 = Inr (- 1, [], [])"
      by (subst next_pair_unfold) simp
    moreover have "cfsfile_get_next_option_pair [] 0 = Inr (- 1, [], [])"
      by (subst next_pair_unfold) simp
    ultimately show ?thesis using True
      by (subst next_pair_unfold) (simp add: shift_pair_def shift_pos_def)
  next
    case ne: False
    let ?e = "line_end_of s 0"
    let ?f = "py_find s ''='' 0 ?e"
    show ?thesis
    proof (cases "?f = - 1")
      case none: True
      have st: "py_strip FORMAT_TRIMMING_CHARS (py_slice (c # s) 0 (1 + ?e)) =
                py_strip FORMAT_TRIMMING_CHARS (py_slice s 0 ?e)"
        using assms e0 by (simp add: sl py_strip_cons_trim)
      show ?thesis
      proof (cases "py_strip FORMAT_TRIMMING_CHARS (py_slice s 0 ?e) \<noteq> []")
        case True
        with none ne st show ?thesis
          by (subst next_pair_unfold, subst (2) next_pair_unfold)
             (simp add: le fd shift_pos_def shift_pair_def)
      next
        case False
        have "cfsfile_get_next_option_pair (c # s) (1 + (?e + 1)) =
              shift_pair 1 (cfsfile_get_next_option_pair s (?e + 1))"
          using e0 by (intro shift_pair_1) simp
        with none ne st False show ?thesis
          by (subst next_pair_unfold, subst (2) next_pair_unfold)
             (simp add: le fd shift_pos_def add.assoc)
      qed
    next
      case some: False
      with py_find_ge0 [of s "''=''" 0 ?e] have f0: "0 \<le> ?f" by auto
      have o: "py_strip FORMAT_TRIMMING_CHARS (py_slice (c # s) 0 (1 + ?f)) =
               py_strip FORMAT_TRIMMING_CHARS (py_slice s 0 ?f)"
        using assms f0 by (simp add: sl py_strip_cons_trim)
      have v: "py_slice (c # s) (1 + (?f + 1)) (1 + ?e) = py_slice s (?f + 1) ?e"
        using f0 e0 by (intro sv) auto
      from some ne f0 e0 o v show ?thesis
        by (subst next_pair_unfold, subst (2) next_pair_unfold)
           (simp add: le fd shift_pos_def shift_pair_def add.assoc)
    qed
  qed
qed

lemma next_pair_ws:
  assumes "set ws \<subseteq> set FORMAT_TRIMMING_CHARS"
  shows "cfsfile_get_next_option_pair (ws @ d) 0 =
         shift_pair (length ws) (cfsfile_get_next_option_pair d 0)"
  using assms
proof (induction ws)
  case Nil
  show ?case
  proof (cases "cfsfile_get_next_option_pair d 0")
    case (Inl e)
    then show ?thesis by (simp add: shift_pair_def)
  next
    case (Inr t)
    obtain q opt v where t: "t = (q, opt, v)" by (cases t)
    from next_pair_result [of 0 d q opt v] Inr t show ?thesis
      by (auto simp: shift_pair_def shift_pos_def)
  qed
next
  case (Cons c ws)
  have "cfsfile_get_next_option_pair (c # ws @ d) 0 =
        shift_pair 1 (cfsfile_get_next_option_pair (ws @ d) 0)"
    using Cons.prems by (intro next_pair_ws_char) simp
  also have "\<dots> = shift_pair 1 (shift_pair (length ws) (cfsfile_get_next_option_pair d 0))"
    using Cons by simp
  also have "\<dots> = shift_pair (length (c # ws)) (cfsfile_get_next_option_pair d 0)"
  proof (cases "cfsfile_get_next_option_pair d 0")
    case (Inl e)
    then show ?thesis by (simp add: shift_pair_def)
  next
    case (Inr t)
    obtain q opt v where t: "t = (q, opt, v)" by (cases t)
    from next_pair_result [of 0 d q opt v] Inr t show ?thesis
      by (auto simp: shift_pair_def shift_pos_def)
  qed
  finally show ?case by simp
qed

lemma fill_ws_prefix:
  assumes "set ws \<subseteq> set FORMAT_TRIMMING_CHARS"
  shows "fill_cfsfile_from_string (ws @ d) c = fill_cfsfile_from_string d c"
proof (cases "cfsfile_get_next_option_pair d 0")
  case (Inl e)
  then show ?thesis
    by (simp add: fill_cfsfile_from_string_def next_pair_ws [OF assms] shift_pair_def)
next
  case (Inr t)
  obtain q opt v where t: "t = (q, opt, v)" by (cases t)
  from next_pair_result [of 0 d q opt v] Inr t
  consider "q = - 1" "opt = []" | "0 < q" by auto
  then show ?thesis
  proof cases
    case 1
    with Inr t show ?thesis
      by (simp add: fill_cfsfile_from_string_def next_pair_ws [OF assms] shift_pair_def
            shift_pos_def FORMAT_HEADER_NAME_def)
  next
    case 2
    then have "fill_cfsfile_loop (ws @ d) (int (length ws) + q) c = fill_cfsfile_loop d q c"
      by (intro fill_loop_shift) simp
    with 2 Inr t show ?thesis
      by (simp add: fill_cfsfile_from_string_def next_pair_ws [OF assms] shift_pair_def
            shift_pos_def split: option.splits)
  qed
qed

lemma not_old_format_ws:
  assumes "set ws \<subseteq> set FORMAT_TRIMMING_CHARS" and "ws \<noteq> []"
  shows "\<not> is_old_format_cfsfile (ws @ d)"
proof -
  from assms obtain w ws' where ws: "ws = w # ws'" and w: "w \<in> set FORMAT_TRIMMING_CHARS"
    by (cases ws) auto
  from w have "w \<noteq> CHR ''C''" by (auto simp: FORMAT_TRIMMING_CHARS_def)
  then show ?thesis
    by (simp add: ws is_old_format_cfsfile_def py_startswith_def
          FORMAT_HEADER_PREFIX_OLD_FORMAT_def)
qed

text \<open>
  \<^bold>\<open>C10\<close>. Take a text of the current format that is read successfully, and put before
  it any number of blank lines: lines made only of the characters the format trims
  (space, tab, carriage return, newline). The longer text is read successfully too, and
  gives the same record. So the header \<open>CatalogFS=3\<close> need not be the first line of the
  input. (The theorem allows any run of trimming characters before the text, whole
  lines or not.)
\<close>

theorem leading_blank_lines:
  assumes "set ws \<subseteq> set FORMAT_TRIMMING_CHARS"
    and "\<not> is_old_format_cfsfile d"
    and "read_cfsfile d c = Some (Inr r)"
  shows "read_cfsfile (ws @ d) c = Some (Inr r)"
proof (cases "ws = []")
  case True
  with assms(3) show ?thesis by simp
next
  case False
  with assms(1) have "\<not> is_old_format_cfsfile (ws @ d)" by (rule not_old_format_ws)
  with assms show ?thesis by (simp add: read_cfsfile_def fill_ws_prefix)
qed

theorem leading_blank_lines_witness:
  "set ('' '' @ [LF, TAB, CR, LF]) \<subseteq> set FORMAT_TRIMMING_CHARS
   \<and> \<not> is_old_format_cfsfile (''CatalogFS=3'' @ [LF] @ ''size=7'' @ [LF])
   \<and> read_cfsfile (''CatalogFS=3'' @ [LF] @ ''size=7'' @ [LF]) CFSFile_init
       = Some (Inr (CFSFile_init\<lparr>size_f := Some 7\<rparr>))
   \<and> read_cfsfile (('' '' @ [LF, TAB, CR, LF]) @ ''CatalogFS=3'' @ [LF] @ ''size=7'' @ [LF])
       CFSFile_init = Some (Inr (CFSFile_init\<lparr>size_f := Some 7\<rparr>))"
proof -
  have h1: "set ('' '' @ [LF, TAB, CR, LF]) \<subseteq> set FORMAT_TRIMMING_CHARS"
    by (simp add: FORMAT_TRIMMING_CHARS_def)
  have h2: "\<not> is_old_format_cfsfile (''CatalogFS=3'' @ [LF] @ ''size=7'' @ [LF])"
    by code_simp
  have h3: "read_cfsfile (''CatalogFS=3'' @ [LF] @ ''size=7'' @ [LF]) CFSFile_init
            = Some (Inr (CFSFile_init\<lparr>size_f := Some 7\<rparr>))"
    by code_simp
  from leading_blank_lines [OF h1 h2 h3] h1 h2 h3 show ?thesis by blast
qed

section \<open>Headers and versions\<close>

lemma strip_header_name: "py_strip FORMAT_TRIMMING_CHARS ''CatalogFS'' = ''CatalogFS''"
  by code_simp

text \<open>
  \<^bold>\<open>C5\<close>. A text whose header line is \<open>CatalogFS=4\<close>, ended by a line end or by the end
  of the text, is rejected with the error for an unsupported version, whatever follows
  the header. A text whose first line is \<open>CatalogFS.File.3\<close> is rejected with the error
  for an invalid version of the old format; without a newline after that header it is
  rejected too, for having no valid header.
\<close>

theorem version_rejection:
  "(t = [] \<or> hd t = LF \<or> hd t = CR \<longrightarrow>
      read_cfsfile (''CatalogFS=4'' @ t) c = Some (Inl (UnsupportedVersion 4)))
   \<and> read_cfsfile (''CatalogFS.File.3'' @ LF # b) c = Some (Inl (InvalidOldFormatVersion 3))
   \<and> read_cfsfile ''CatalogFS.File.3'' c = Some (Inl NoValidHeader)"
proof (intro conjI impI)
  assume t: "t = [] \<or> hd t = LF \<or> hd t = CR"
  have no: "\<not> is_old_format_cfsfile (''CatalogFS=4'' @ t)"
    by (simp add: is_old_format_cfsfile_def py_startswith_def FORMAT_HEADER_PREFIX_OLD_FORMAT_def)
  have "cfsfile_get_next_option_pair (''CatalogFS'' @ CHR ''='' # ''4'' @ t) 0 =
        Inr (int (length ''CatalogFS'' + length ''4'') + 2,
             py_strip FORMAT_TRIMMING_CHARS ''CatalogFS'', ''4'')"
    using t by (intro next_pair_line) auto
  moreover have "py_int ''4'' = Some 4" by code_simp
  ultimately have "fill_cfsfile_from_string (''CatalogFS=4'' @ t) c = Inl (UnsupportedVersion 4)"
    by (simp add: fill_cfsfile_from_string_def strip_header_name FORMAT_HEADER_NAME_def
          CFSFILE_VERSION_3_def)
  with no show "read_cfsfile (''CatalogFS=4'' @ t) c = Some (Inl (UnsupportedVersion 4))"
    by (simp add: read_cfsfile_def)
next
  have o: "is_old_format_cfsfile (''CatalogFS.File.3'' @ LF # b)"
    by (simp add: is_old_format_cfsfile_def py_startswith_def FORMAT_HEADER_PREFIX_OLD_FORMAT_def)
  have s: "py_startswith ''CatalogFS.File.3'' FORMAT_HEADER_PREFIX_OLD_FORMAT" by code_simp
  have i: "py_int (drop 15 ''CatalogFS.File.3'') = Some 3" by code_simp
  show "read_cfsfile (''CatalogFS.File.3'' @ LF # b) c = Some (Inl (InvalidOldFormatVersion 3))"
    using old_format_header [of "''CatalogFS.File.3''" b c] o s i
    by (simp add: read_cfsfile_def)
next
  have o: "is_old_format_cfsfile ''CatalogFS.File.3''" by code_simp
  show "read_cfsfile ''CatalogFS.File.3'' c = Some (Inl NoValidHeader)"
    using old_format_no_newline [of "''CatalogFS.File.3''" c] o
    by (simp add: read_cfsfile_def)
qed

theorem version_rejection_witness:
  "read_cfsfile (''CatalogFS=4'' @ [LF] @ ''size=1'' @ [LF]) CFSFile_init
     = Some (Inl (UnsupportedVersion 4))
   \<and> read_cfsfile ''CatalogFS=4'' CFSFile_init = Some (Inl (UnsupportedVersion 4))
   \<and> read_cfsfile (''CatalogFS.File.3'' @ [LF] @ ''size: 1'' @ [LF]) CFSFile_init
     = Some (Inl (InvalidOldFormatVersion 3))"
  using version_rejection [of "[LF] @ ''size=1'' @ [LF]" CFSFile_init "''size: 1'' @ [LF]"]
    version_rejection [of "[]" CFSFile_init "[]"]
  by simp

text \<open>
  \<^bold>\<open>C3\<close>, as the claim states it: the reader of the old formats is chosen exactly when
  the first line is the prefix \<open>CatalogFS.File.\<close> followed directly by a digit, and a
  text with the prefix followed by something else goes to the reader of the current
  format and fails its header check. The code chooses by the prefix alone. In the text
  below a space follows the prefix; it is read by the reader of the old formats, with
  success, while the reader of the current format would reject it.
\<close>

theorem version_sniffing_counterexample:
  "read_cfsfile (''CatalogFS.File. 1'' @ [LF] @ ''size: 5'' @ [LF]) CFSFile_init
     = Some (Inr (CFSFile_init\<lparr>size_f := Some 5\<rparr>))
   \<and> fill_cfsfile_from_string (''CatalogFS.File. 1'' @ [LF] @ ''size: 5'' @ [LF]) CFSFile_init
     = Inl InvalidString"
  by code_simp

text \<open>
  \<^bold>\<open>C3\<close>, amended. A text that does not start with \<open>CatalogFS.File.\<close> is read by the
  reader of the current format. A text that starts with it is read by the reader of the
  old formats, whatever follows the prefix: when the rest \<open>v\<close> of the first line is not
  accepted by \<open>int\<close> the result is the error for an invalid version string, when it is
  an integer other than 1 and 2 the error for an invalid old version, and otherwise the
  body is parsed; with no newline in the text the result is the error for a missing
  header.
\<close>

theorem version_sniffing:
  "(\<not> py_startswith data FORMAT_HEADER_PREFIX_OLD_FORMAT \<longrightarrow>
      read_cfsfile data c = Some (fill_cfsfile_from_string data c))
   \<and> (LF \<notin> set v \<longrightarrow>
      read_cfsfile (FORMAT_HEADER_PREFIX_OLD_FORMAT @ v @ LF # b) c =
        (case py_int v of
           None \<Rightarrow> Some (Inl (InvalidVersionString v))
         | Some n \<Rightarrow>
             if n \<noteq> 1 \<and> n \<noteq> 2 then Some (Inl (InvalidOldFormatVersion n))
             else old_format_body_loop b 0 c))
   \<and> (LF \<notin> set v \<longrightarrow>
      read_cfsfile (FORMAT_HEADER_PREFIX_OLD_FORMAT @ v) c = Some (Inl NoValidHeader))"
proof (intro conjI impI)
  assume "\<not> py_startswith data FORMAT_HEADER_PREFIX_OLD_FORMAT"
  then show "read_cfsfile data c = Some (fill_cfsfile_from_string data c)"
    by (simp add: read_cfsfile_def is_old_format_cfsfile_def)
next
  assume v: "LF \<notin> set v"
  let ?h = "FORMAT_HEADER_PREFIX_OLD_FORMAT @ v"
  have h: "LF \<notin> set ?h" using v by (simp add: FORMAT_HEADER_PREFIX_OLD_FORMAT_def)
  have o: "is_old_format_cfsfile (?h @ LF # b)"
    by (simp add: is_old_format_cfsfile_def py_startswith_def)
  have s: "py_startswith ?h FORMAT_HEADER_PREFIX_OLD_FORMAT"
    by (simp add: py_startswith_def)
  have d: "drop 15 ?h = v" by (simp add: FORMAT_HEADER_PREFIX_OLD_FORMAT_def)
  show "read_cfsfile (FORMAT_HEADER_PREFIX_OLD_FORMAT @ v @ LF # b) c =
        (case py_int v of
           None \<Rightarrow> Some (Inl (InvalidVersionString v))
         | Some n \<Rightarrow>
             if n \<noteq> 1 \<and> n \<noteq> 2 then Some (Inl (InvalidOldFormatVersion n))
             else old_format_body_loop b 0 c)"
    using old_format_header [OF h, of b c, unfolded d] o s by (simp add: read_cfsfile_def)
next
  assume v: "LF \<notin> set v"
  let ?h = "FORMAT_HEADER_PREFIX_OLD_FORMAT @ v"
  have h: "LF \<notin> set ?h" using v by (simp add: FORMAT_HEADER_PREFIX_OLD_FORMAT_def)
  have o: "is_old_format_cfsfile ?h"
    by (simp add: is_old_format_cfsfile_def py_startswith_def)
  show "read_cfsfile ?h c = Some (Inl NoValidHeader)"
    using old_format_no_newline [OF h, of c] o by (simp add: read_cfsfile_def)
qed

theorem version_sniffing_witness:
  "read_cfsfile (''size=1'' @ [LF]) CFSFile_init
     = Some (fill_cfsfile_from_string (''size=1'' @ [LF]) CFSFile_init)
   \<and> read_cfsfile (''CatalogFS.File.x'' @ [LF] @ ''size: 5'' @ [LF]) CFSFile_init
     = Some (Inl (InvalidVersionString ''x''))
   \<and> read_cfsfile ''CatalogFS.File.1'' CFSFile_init = Some (Inl NoValidHeader)"
proof -
  have h1: "\<not> py_startswith (''size=1'' @ [LF]) FORMAT_HEADER_PREFIX_OLD_FORMAT" by code_simp
  have h2: "LF \<notin> set ''x''" by simp
  have h3: "LF \<notin> set ''1''" by simp
  have i: "py_int ''x'' = None" by code_simp
  from version_sniffing [of "''size=1'' @ [LF]" CFSFile_init "''x''" "''size: 5'' @ [LF]"]
    version_sniffing [of "[]" CFSFile_init "''1''" "[]"] h1 h2 h3 i
  show ?thesis by (simp add: FORMAT_HEADER_PREFIX_OLD_FORMAT_def)
qed

section \<open>The size guard\<close>

text \<open>
  \<^bold>\<open>C8\<close>. \<open>process_one_file\<close> ends with the report that the file is too big exactly
  for a candidate record (no output in the way, a regular source file, the source being
  CatalogFS files) whose size is more than 1,048,576 bytes. The report does not depend
  on the text of the file, which is not read: a file of 1,048,577 bytes is rejected even
  when its text would be read successfully, and a file of at most 1,048,576 bytes is
  never rejected as too big.
\<close>

theorem size_guard:
  "process_one_file output_is_file_or_link output_exists st source_text checksum
     skip_existing flag_source_is_cfsfile flag_sha256 flag_data_only flag_data_and_time_only
     = Some (FileTooBig n)
   \<longleftrightarrow>
   \<not> output_is_file_or_link \<and> \<not> output_exists \<and> S_ISREG (st_mode st)
     \<and> flag_source_is_cfsfile \<and> 1048576 < st_size st \<and> n = st_size st"
  by (auto simp: process_one_file_def FORMAT_MAX_FILE_SIZE_def S_ISREG_def S_ISLNK_def
        split: option.splits sum.splits)

theorem size_guard_witness:
  "process_one_file False False
     \<lparr>st_mode = 33188, st_size = 1048577, st_blocks = 2056, st_uid = 0, st_gid = 0,
      st_atime = 0, st_mtime = 0, st_ctime = 0, st_atime_ns = 0, st_mtime_ns = 0,
      st_ctime_ns = 0, st_nlink = 1, st_blksize = 4096\<rparr>
     (''CatalogFS=3'' @ [LF]) None False True False False False = Some (FileTooBig 1048577)
   \<and> process_one_file False False
     \<lparr>st_mode = 33188, st_size = 1048576, st_blocks = 2056, st_uid = 0, st_gid = 0,
      st_atime = 0, st_mtime = 0, st_ctime = 0, st_atime_ns = 0, st_mtime_ns = 0,
      st_ctime_ns = 0, st_nlink = 1, st_blksize = 4096\<rparr>
     (''CatalogFS=3'' @ [LF]) None False True False False False \<noteq> Some (FileTooBig 1048576)"
proof -
  have r: "S_ISREG 33188" by (simp add: S_ISREG_def S_IFMT_def)
  show ?thesis
    using r
      size_guard [of False False
        "\<lparr>st_mode = 33188, st_size = 1048577, st_blocks = 2056, st_uid = 0, st_gid = 0,
          st_atime = 0, st_mtime = 0, st_ctime = 0, st_atime_ns = 0, st_mtime_ns = 0,
          st_ctime_ns = 0, st_nlink = 1, st_blksize = 4096\<rparr>"
        "''CatalogFS=3'' @ [LF]" None False True False False False 1048577]
      size_guard [of False False
        "\<lparr>st_mode = 33188, st_size = 1048576, st_blocks = 2056, st_uid = 0, st_gid = 0,
          st_atime = 0, st_mtime = 0, st_ctime = 0, st_atime_ns = 0, st_mtime_ns = 0,
          st_ctime_ns = 0, st_nlink = 1, st_blksize = 4096\<rparr>"
        "''CatalogFS=3'' @ [LF]" None False True False False False 1048576]
    by simp
qed

section \<open>Printing and parsing integers\<close>

text \<open>What \<open>str\<close> prints for an integer, \<open>int\<close> reads back as the same integer, and
  the trimming of the reader leaves it as it is.\<close>

lemma digit_of_char_of:
  assumes "0 \<le> k" and "k < 10"
  shows "digit_of (char_of (48 + k)) = Some k"
proof -
  have "(of_char (char_of (48 + k) :: char) :: int) = (48 + k) mod 256"
    by (simp add: of_char_of)
  also have "\<dots> = 48 + k" using assms by simp
  finally show ?thesis using assms by (simp add: digit_of_def)
qed

lemma digit_not_underscore: "digit_of c \<noteq> None \<Longrightarrow> c \<noteq> CHR ''_''"
  by (auto simp: digit_of_def)

lemma digit_not_space: "digit_of c \<noteq> None \<Longrightarrow> \<not> py_int_space c"
  by (auto simp: digit_of_def py_int_space_def Let_def split: if_splits)

lemma digit_not_sign: "digit_of c \<noteq> None \<Longrightarrow> c \<noteq> CHR ''-'' \<and> c \<noteq> CHR ''+''"
  by (auto simp: digit_of_def)

lemma digit_not_trim: "digit_of c \<noteq> None \<Longrightarrow> c \<notin> set FORMAT_TRIMMING_CHARS"
  by (auto simp: digit_of_def FORMAT_TRIMMING_CHARS_def)

lemma py_digits_snoc:
  assumes "\<forall>c\<in>set xs. digit_of c \<noteq> None" and "digit_of d = Some k"
  shows "py_digits (xs @ [d]) acc =
         (case py_digits xs acc of None \<Rightarrow> None | Some a \<Rightarrow> Some (a * 10 + k))"
  using assms
proof (induction xs arbitrary: acc)
  case Nil
  then show ?case using digit_not_underscore [of d] by simp
next
  case (Cons c xs)
  then show ?case using digit_not_underscore [of c] by (auto split: option.splits)
qed

lemma py_unsigned_snoc:
  assumes "xs \<noteq> []" and "\<forall>c\<in>set xs. digit_of c \<noteq> None" and "digit_of d = Some k"
  shows "py_unsigned (xs @ [d]) =
         (case py_unsigned xs of None \<Rightarrow> None | Some a \<Rightarrow> Some (a * 10 + k))"
proof -
  from assms(1) obtain c cs where xs: "xs = c # cs" by (cases xs) auto
  with assms(2) obtain j where j: "digit_of c = Some j" by auto
  from assms(2) xs have "\<forall>c\<in>set cs. digit_of c \<noteq> None" by simp
  from py_digits_snoc [OF this assms(3), of j] show ?thesis
    by (simp add: py_unsigned_def xs j)
qed

lemma py_str_digits_props:
  "0 \<le> n \<Longrightarrow>
   py_str_digits n \<noteq> [] \<and> (\<forall>c\<in>set (py_str_digits n). digit_of c \<noteq> None)
   \<and> py_unsigned (py_str_digits n) = Some n"
proof (induction n rule: py_str_digits.induct)
  case (1 n)
  show ?case
  proof (cases "n < 10")
    case True
    with "1.prems" digit_of_char_of [of n] show ?thesis
      by (subst (1 2 3) py_str_digits.simps) (simp add: py_unsigned_def)
  next
    case False
    with "1.prems" have d: "digit_of (char_of (48 + n mod 10)) = Some (n mod 10)"
      by (intro digit_of_char_of) auto
    from False "1.prems" "1.IH" have IH: "py_str_digits (n div 10) \<noteq> []"
      "\<forall>c\<in>set (py_str_digits (n div 10)). digit_of c \<noteq> None"
      "py_unsigned (py_str_digits (n div 10)) = Some (n div 10)" by auto
    have u: "py_unsigned (py_str_digits (n div 10) @ [char_of (48 + n mod 10)]) = Some n"
      using py_unsigned_snoc [OF IH(1,2) d] IH(3) by simp
    from False IH d u show ?thesis
      by (subst (1 2 3) py_str_digits.simps) auto
  qed
qed

lemma strip_id:
  assumes "xs = [] \<or> (\<not> P (hd xs) \<and> \<not> P (last xs))"
  shows "rev (dropWhile P (rev (dropWhile P xs))) = xs"
proof (cases xs)
  case Nil
  then show ?thesis by simp
next
  case (Cons c cs)
  with assms have 1: "dropWhile P xs = xs" by simp
  from Cons assms have "\<not> P (last xs)" by simp
  moreover have "hd (rev xs) = last xs" by (rule hd_rev)
  ultimately have "\<not> P (hd (rev xs))" by simp
  then have "dropWhile P (rev xs) = rev xs" using Cons by (cases "rev xs") auto
  with 1 show ?thesis by simp
qed

lemma py_int_py_str: "py_int (py_str n) = Some n"
proof (cases "n < 0")
  case True
  let ?ds = "py_str_digits (- n)"
  from True py_str_digits_props [of "- n"]
  have p: "?ds \<noteq> []" "\<forall>c\<in>set ?ds. digit_of c \<noteq> None" "py_unsigned ?ds = Some (- n)" by auto
  from p(1,2) have "\<not> py_int_space (last ?ds)" using digit_not_space last_in_set by blast
  moreover have "\<not> py_int_space (CHR ''-'')" by (simp add: py_int_space_def)
  ultimately have "rev (dropWhile py_int_space (rev (dropWhile py_int_space (CHR ''-'' # ?ds))))
      = CHR ''-'' # ?ds"
    using p(1) by (intro strip_id) simp
  with True p(3) show ?thesis by (simp add: py_int_def py_str_def)
next
  case False
  let ?ds = "py_str_digits n"
  from False py_str_digits_props [of n]
  have p: "?ds \<noteq> []" "\<forall>c\<in>set ?ds. digit_of c \<noteq> None" "py_unsigned ?ds = Some n" by auto
  from p(1) obtain c cs where ds: "?ds = c # cs" by (cases ?ds) auto
  from p(1,2) have "\<not> py_int_space (last ?ds)" "\<not> py_int_space (hd ?ds)"
    using digit_not_space last_in_set hd_in_set by blast+
  then have "rev (dropWhile py_int_space (rev (dropWhile py_int_space ?ds))) = ?ds"
    by (intro strip_id) simp
  moreover from p(2) ds have "c \<noteq> CHR ''-''" "c \<noteq> CHR ''+''" using digit_not_sign [of c] by auto
  ultimately show ?thesis using False p(3) ds by (simp add: py_int_def py_str_def)
qed

lemma py_str_chars:
  "c \<in> set (py_str n) \<Longrightarrow> c = CHR ''-'' \<or> digit_of c \<noteq> None"
  using py_str_digits_props [of n] py_str_digits_props [of "- n"]
  by (auto simp: py_str_def split: if_splits)

lemma py_str_no_newline: "LF \<notin> set (py_str n)" "CR \<notin> set (py_str n)"
  using py_str_chars [of LF n] py_str_chars [of CR n] by (auto simp: digit_of_def)

lemma py_str_not_empty: "py_str n \<noteq> []"
  using py_str_digits_props [of n] by (auto simp: py_str_def)

lemma py_strip_py_str: "py_strip FORMAT_TRIMMING_CHARS (py_str n) = py_str n"
proof -
  have "\<And>c. c \<in> set (py_str n) \<Longrightarrow> c \<notin> set FORMAT_TRIMMING_CHARS"
    using py_str_chars digit_not_trim by (fastforce simp: FORMAT_TRIMMING_CHARS_def)
  then have "\<not> hd (py_str n) \<in> set FORMAT_TRIMMING_CHARS \<and>
             \<not> last (py_str n) \<in> set FORMAT_TRIMMING_CHARS"
    using py_str_not_empty [of n] hd_in_set last_in_set by blast
  then show ?thesis unfolding py_strip_def by (intro strip_id) simp
qed

lemma cfsfile_extract_int_py_str: "cfsfile_extract_int (py_str n) = Inr n"
  by (simp add: cfsfile_extract_int_def py_strip_py_str py_int_py_str)

section \<open>A written record, read line by line\<close>

lemma in_int_fields:
  "name \<in> set int_fields \<longleftrightarrow>
     name = ''size'' \<or> name = ''blocks'' \<or> name = ''mode'' \<or> name = ''uid'' \<or> name = ''gid''
     \<or> name = ''atime'' \<or> name = ''mtime'' \<or> name = ''ctime'' \<or> name = ''atimensec''
     \<or> name = ''mtimensec'' \<or> name = ''ctimensec'' \<or> name = ''nlink'' \<or> name = ''blksize''"
  by (simp add: int_fields_def)

lemma param_int:
  assumes "name \<in> set int_fields"
  shows "fill_cfsfile_param name value c =
         assign_int (cfsfile_extract_int value) (\<lambda>v. set_int name v c)"
  using assms unfolding in_int_fields
  by (elim disjE) (simp_all add: fill_cfsfile_param_def set_int_def)

lemma param_sha256:
  "fill_cfsfile_param ''sha256'' value c =
   Inr (c\<lparr>sha256 := Some (py_strip FORMAT_TRIMMING_CHARS value)\<rparr>)"
  by (simp add: fill_cfsfile_param_def)

lemma int_field_clean:
  assumes "name \<in> set int_fields"
  shows "CHR ''='' \<notin> set name" "LF \<notin> set name" "CR \<notin> set name"
    "py_strip FORMAT_TRIMMING_CHARS name = name"
  using assms unfolding in_int_fields
  by (auto simp: py_strip_def FORMAT_TRIMMING_CHARS_def)

lemma sha256_clean:
  "CHR ''='' \<notin> set ''sha256''" "LF \<notin> set ''sha256''" "CR \<notin> set ''sha256''"
    "py_strip FORMAT_TRIMMING_CHARS ''sha256'' = ''sha256''"
  by (auto simp: py_strip_def FORMAT_TRIMMING_CHARS_def)

lemma fill_loop_value_line:
  assumes "CHR ''='' \<notin> set name" "LF \<notin> set name" "CR \<notin> set name"
    and "py_strip FORMAT_TRIMMING_CHARS name = name"
    and "LF \<notin> set v" "CR \<notin> set v"
  shows "fill_cfsfile_loop (name @ ''='' @ v @ [LF] @ rest) 0 c =
         (case fill_cfsfile_param name v c of
            Inl e \<Rightarrow> Inl e
          | Inr c' \<Rightarrow> fill_cfsfile_loop rest 0 c')"
  using fill_loop_line [of name v LF rest c] assms by simp

lemma loop_fmt_int:
  assumes "name \<in> set int_fields"
  shows "fill_cfsfile_loop (fmt_int name v @ rest) 0 c = fill_cfsfile_loop rest 0 (put_int name v c)"
proof (cases v)
  case None
  then show ?thesis by (simp add: fmt_int_def put_int_def)
next
  case (Some n)
  have "fill_cfsfile_loop (name @ ''='' @ py_str n @ [LF] @ rest) 0 c =
        fill_cfsfile_loop rest 0 (set_int name (Some n) c)"
    using int_field_clean [OF assms] py_str_no_newline [of n]
    by (subst fill_loop_value_line)
       (simp_all add: param_int [OF assms] cfsfile_extract_int_py_str assign_int_def)
  with Some show ?thesis
    by (simp add: fmt_int_def put_int_def FORMAT_FIELD_DELIMITER_def FORMAT_NEW_LINE_CHAR_def)
qed

lemma loop_fmt_time:
  assumes "name \<in> set int_fields"
  shows "fill_cfsfile_loop (fmt_time name v @ rest) 0 c = fill_cfsfile_loop rest 0 (put_time name v c)"
proof -
  have "fmt_time name v = fmt_int name (map_option py_trunc v)"
    by (cases v) (simp_all add: fmt_time_def fmt_int_def)
  then show ?thesis using loop_fmt_int [OF assms] by (simp add: put_time_def)
qed

lemma loop_fmt_nsec:
  assumes "name \<in> set int_fields"
  shows "fill_cfsfile_loop (fmt_nsec name v @ rest) 0 c = fill_cfsfile_loop rest 0 (put_nsec name v c)"
proof (cases "v = None \<or> v = Some 0")
  case True
  then show ?thesis by (auto simp: fmt_nsec_def put_nsec_def)
next
  case False
  then obtain n where n: "v = Some n" "n \<noteq> 0" by (cases v) auto
  then have "fmt_nsec name v = fmt_int name v" "put_nsec name v c = put_int name v c"
    by (simp_all add: fmt_nsec_def fmt_int_def put_nsec_def put_int_def)
  then show ?thesis using loop_fmt_int [OF assms] by simp
qed

lemma loop_fmt_str:
  assumes "hash_ok v"
  shows "fill_cfsfile_loop (fmt_str ''sha256'' v @ rest) 0 c = fill_cfsfile_loop rest 0 (put_hash v c)"
proof (cases v)
  case None
  then show ?thesis by (simp add: fmt_str_def put_hash_def)
next
  case (Some h)
  with assms have h: "LF \<notin> set h" "CR \<notin> set h" "py_strip FORMAT_TRIMMING_CHARS h = h"
    by (simp_all add: hash_ok_def)
  have "fill_cfsfile_loop (''sha256'' @ ''='' @ h @ [LF] @ rest) 0 c =
        fill_cfsfile_loop rest 0 (c\<lparr>sha256 := Some h\<rparr>)"
    using sha256_clean h
    by (subst fill_loop_value_line) (simp_all add: param_sha256)
  with Some show ?thesis
    by (simp add: fmt_str_def put_hash_def FORMAT_FIELD_DELIMITER_def FORMAT_NEW_LINE_CHAR_def)
qed

lemma header_to_write: "FORMAT_HEADER_TO_WRITE = ''CatalogFS=3'' @ [LF]"
proof -
  have "py_str 3 = ''3''" by code_simp
  then show ?thesis
    by (simp add: FORMAT_HEADER_TO_WRITE_def FORMAT_HEADER_NAME_def FORMAT_FIELD_DELIMITER_def
          FORMAT_NEW_LINE_CHAR_def CFSFILE_CURRENT_VERSION_def CFSFILE_VERSION_3_def)
qed

lemma read_after_header:
  "read_cfsfile (FORMAT_HEADER_TO_WRITE @ rest) c = Some (fill_cfsfile_loop rest 0 c)"
proof -
  have no: "\<not> is_old_format_cfsfile (FORMAT_HEADER_TO_WRITE @ rest)"
    by (simp add: header_to_write is_old_format_cfsfile_def py_startswith_def
          FORMAT_HEADER_PREFIX_OLD_FORMAT_def)
  have np: "cfsfile_get_next_option_pair (''CatalogFS'' @ CHR ''='' # ''3'' @ LF # rest) 0 =
        Inr (int (length ''CatalogFS'' + length ''3'') + 2,
             py_strip FORMAT_TRIMMING_CHARS ''CatalogFS'', ''3'')"
    by (intro next_pair_line) auto
  have i: "py_int ''3'' = Some 3" by code_simp
  have sh: "fill_cfsfile_loop (''CatalogFS=3'' @ LF # rest) 12 c = fill_cfsfile_loop rest 0 c"
    using fill_loop_shift [of 0 "''CatalogFS=3'' @ [LF]" rest c] by simp
  from np i sh have "fill_cfsfile_from_string (FORMAT_HEADER_TO_WRITE @ rest) c =
        fill_cfsfile_loop rest 0 c"
    by (simp add: header_to_write fill_cfsfile_from_string_def strip_header_name
          FORMAT_HEADER_NAME_def CFSFILE_VERSION_3_def)
  with no show ?thesis by (simp add: read_cfsfile_def)
qed

lemma loop_fmt_str_end:
  assumes "hash_ok v"
  shows "fill_cfsfile_loop (fmt_str ''sha256'' v) 0 c = Inr (put_hash v c)"
  using loop_fmt_str [OF assms, of "[]" c] by (simp add: fill_loop_nil)

lemma case_option_id: "(case v of None \<Rightarrow> None | Some x \<Rightarrow> Some x) = v"
  by (cases v) simp_all

lemma put_int_fields:
  "put_int ''size'' v c = c\<lparr>size_f := (case v of None \<Rightarrow> size_f c | Some n \<Rightarrow> Some n)\<rparr>"
  "put_int ''blocks'' v c = c\<lparr>blocks := (case v of None \<Rightarrow> blocks c | Some n \<Rightarrow> Some n)\<rparr>"
  "put_int ''mode'' v c = c\<lparr>mode := (case v of None \<Rightarrow> mode c | Some n \<Rightarrow> Some n)\<rparr>"
  "put_int ''uid'' v c = c\<lparr>uid := (case v of None \<Rightarrow> uid c | Some n \<Rightarrow> Some n)\<rparr>"
  "put_int ''gid'' v c = c\<lparr>gid := (case v of None \<Rightarrow> gid c | Some n \<Rightarrow> Some n)\<rparr>"
  "put_int ''nlink'' v c = c\<lparr>nlink := (case v of None \<Rightarrow> nlink c | Some n \<Rightarrow> Some n)\<rparr>"
  "put_int ''blksize'' v c = c\<lparr>blksize := (case v of None \<Rightarrow> blksize c | Some n \<Rightarrow> Some n)\<rparr>"
  by (cases v; simp add: put_int_def set_int_def)+

lemma put_time_fields:
  "put_time ''atime'' x c =
     c\<lparr>atime := (case x of None \<Rightarrow> atime c | Some y \<Rightarrow> Some (real_of_int (py_trunc y)))\<rparr>"
  "put_time ''mtime'' x c =
     c\<lparr>mtime := (case x of None \<Rightarrow> mtime c | Some y \<Rightarrow> Some (real_of_int (py_trunc y)))\<rparr>"
  "put_time ''ctime'' x c =
     c\<lparr>ctime := (case x of None \<Rightarrow> ctime c | Some y \<Rightarrow> Some (real_of_int (py_trunc y)))\<rparr>"
  by (cases x; simp add: put_time_def put_int_def set_int_def)+

lemma put_nsec_fields:
  "put_nsec ''atimensec'' v c =
     c\<lparr>atimensec := (case v of None \<Rightarrow> atimensec c
                      | Some n \<Rightarrow> if n \<noteq> 0 then Some n else atimensec c)\<rparr>"
  "put_nsec ''mtimensec'' v c =
     c\<lparr>mtimensec := (case v of None \<Rightarrow> mtimensec c
                      | Some n \<Rightarrow> if n \<noteq> 0 then Some n else mtimensec c)\<rparr>"
  "put_nsec ''ctimensec'' v c =
     c\<lparr>ctimensec := (case v of None \<Rightarrow> ctimensec c
                      | Some n \<Rightarrow> if n \<noteq> 0 then Some n else ctimensec c)\<rparr>"
  by (cases v; simp add: put_nsec_def set_int_def)+

lemma put_hash_eq:
  "put_hash v c = c\<lparr>sha256 := (case v of None \<Rightarrow> sha256 c | Some h \<Rightarrow> Some h)\<rparr>"
  by (cases v) (simp_all add: put_hash_def)

lemma decode_data_only:
  assumes "hash_ok (sha256 r)"
  shows "read_cfsfile (write_cfsfile_data r True t) CFSFile_init =
         Some (Inr (preserved True t r))"
proof -
  have "read_cfsfile (write_cfsfile_data r True t) CFSFile_init =
        Some (Inr (put_hash (sha256 r) (put_int ''size'' (size_f r) CFSFile_init)))"
    using assms
    by (simp add: write_cfsfile_data_def read_after_header loop_fmt_int loop_fmt_str_end
          in_int_fields)
  also have "put_hash (sha256 r) (put_int ''size'' (size_f r) CFSFile_init) = preserved True t r"
    by (simp add: put_hash_eq put_int_fields preserved_def restrict_to_def whole_seconds_def
          drop_zero_nsec_def CFSFile_init_def nonzero_def case_option_id
          cong: option.case_cong if_cong)
  finally show ?thesis .
qed

lemma decode_data_and_time:
  assumes "hash_ok (sha256 r)"
  shows "read_cfsfile (write_cfsfile_data r False True) CFSFile_init =
         Some (Inr (preserved False True r))"
proof -
  have "read_cfsfile (write_cfsfile_data r False True) CFSFile_init =
        Some (Inr (put_hash (sha256 r) (put_nsec ''mtimensec'' (mtimensec r)
          (put_time ''mtime'' (mtime r) (put_int ''size'' (size_f r) CFSFile_init)))))"
    using assms
    by (simp add: write_cfsfile_data_def read_after_header loop_fmt_int loop_fmt_time
          loop_fmt_nsec loop_fmt_str_end in_int_fields)
  also have "put_hash (sha256 r) (put_nsec ''mtimensec'' (mtimensec r)
          (put_time ''mtime'' (mtime r) (put_int ''size'' (size_f r) CFSFile_init)))
        = preserved False True r"
    by (simp add: put_hash_eq put_int_fields put_time_fields put_nsec_fields preserved_def
          restrict_to_def whole_seconds_def drop_zero_nsec_def CFSFile_init_def case_option_id
          nonzero_def map_option_case cong: option.case_cong if_cong)
  finally show ?thesis .
qed

lemma decode_full:
  assumes "hash_ok (sha256 r)"
  shows "read_cfsfile (write_cfsfile_data r False False) CFSFile_init =
         Some (Inr (preserved False False r))"
proof -
  let ?c = "put_hash (sha256 r) (put_int ''blksize'' (blksize r) (put_int ''nlink'' (nlink r)
     (put_nsec ''ctimensec'' (ctimensec r) (put_nsec ''mtimensec'' (mtimensec r)
     (put_nsec ''atimensec'' (atimensec r) (put_time ''ctime'' (ctime r)
     (put_time ''mtime'' (mtime r) (put_time ''atime'' (atime r) (put_int ''gid'' (gid r)
     (put_int ''uid'' (uid r) (put_int ''mode'' (mode r) (put_int ''blocks'' (blocks r)
     (put_int ''size'' (size_f r) CFSFile_init)))))))))))))"
  have "read_cfsfile (write_cfsfile_data r False False) CFSFile_init = Some (Inr ?c)"
    using assms
    by (simp add: write_cfsfile_data_def read_after_header loop_fmt_int loop_fmt_time
          loop_fmt_nsec loop_fmt_str_end in_int_fields)
  also have "?c = preserved False False r"
    by (simp add: put_hash_eq put_int_fields put_time_fields put_nsec_fields preserved_def
          restrict_to_def whole_seconds_def drop_zero_nsec_def CFSFile_init_def case_option_id
          nonzero_def map_option_case cong: option.case_cong if_cong)
  finally show ?thesis .
qed

lemma decode_written:
  assumes "hash_ok (sha256 r)"
  shows "read_cfsfile (write_cfsfile_data r d t) CFSFile_init = Some (Inr (preserved d t r))"
proof (cases d)
  case True
  with decode_data_only [OF assms] show ?thesis by simp
next
  case False
  with decode_data_and_time [OF assms] decode_full [OF assms] show ?thesis by (cases t) simp_all
qed

section \<open>Encoding, then decoding\<close>

text \<open>
  \<^bold>\<open>C1\<close>, as the claim states it: decoding what was encoded under a profile gives back
  the record on the fields of the profile. Two records with only fields of the
  data-and-time profile show that it does not. The first has \<open>mtimensec = 0\<close>: no line
  is written for that field, and the decoded record has no \<open>mtimensec\<close>. The second has
  the time \<open>1700000000.5\<close>, a float as \<open>os.lstat\<close> gives it: \<open>int\<close> cuts the
  fraction when the line is written, and the decoded time is \<open>1700000000\<close>.
\<close>

theorem roundtrip_counterexample:
  "read_cfsfile
     (write_cfsfile_data
        (CFSFile_init\<lparr>size_f := Some 4096, mtime := Some 1700000000, mtimensec := Some 0\<rparr>)
        False True) CFSFile_init
     = Some (Inr (CFSFile_init\<lparr>size_f := Some 4096, mtime := Some 1700000000\<rparr>))
   \<and> mtimensec (CFSFile_init\<lparr>size_f := Some 4096, mtime := Some 1700000000\<rparr>)
       \<noteq> mtimensec
           (CFSFile_init\<lparr>size_f := Some 4096, mtime := Some 1700000000, mtimensec := Some 0\<rparr>)
   \<and> read_cfsfile
       (write_cfsfile_data (CFSFile_init\<lparr>mtime := Some (3400000001 / 2)\<rparr>) False True)
       CFSFile_init
     = Some (Inr (CFSFile_init\<lparr>mtime := Some 1700000000\<rparr>))
   \<and> mtime (CFSFile_init\<lparr>mtime := Some 1700000000\<rparr>)
       \<noteq> mtime (CFSFile_init\<lparr>mtime := Some (3400000001 / 2)\<rparr>)"
proof -
  let ?r1 = "CFSFile_init\<lparr>size_f := Some 4096, mtime := Some 1700000000, mtimensec := Some 0\<rparr>"
  let ?r2 = "CFSFile_init\<lparr>mtime := Some (3400000001 / 2)\<rparr>"
  have h1: "hash_ok (sha256 ?r1)" by (simp add: hash_ok_def CFSFile_init_def)
  have h2: "hash_ok (sha256 ?r2)" by (simp add: hash_ok_def CFSFile_init_def)
  have p1: "preserved False True ?r1 = CFSFile_init\<lparr>size_f := Some 4096, mtime := Some 1700000000\<rparr>"
    by (simp add: preserved_def drop_zero_nsec_def whole_seconds_def restrict_to_def nonzero_def
          CFSFile_init_def py_trunc_def)
  have p2: "preserved False True ?r2 = CFSFile_init\<lparr>mtime := Some 1700000000\<rparr>"
    by (simp add: preserved_def drop_zero_nsec_def whole_seconds_def restrict_to_def nonzero_def
          CFSFile_init_def py_trunc_def)
  have n1: "mtimensec (CFSFile_init\<lparr>size_f := Some 4096, mtime := Some 1700000000\<rparr>)
            \<noteq> mtimensec ?r1"
    by (simp add: CFSFile_init_def)
  have n2: "mtime (CFSFile_init\<lparr>mtime := Some 1700000000\<rparr>) \<noteq> mtime ?r2"
    by simp
  from decode_written [OF h1, of False True] decode_written [OF h2, of False True] p1 p2 n1 n2
  show ?thesis by (intro conjI) simp_all
qed

text \<open>
  \<^bold>\<open>C1\<close>, amended. Let \<open>r\<close> be a record with a well-formed hash (\<open>hash_ok\<close>, which
  every string of hexadecimal digits satisfies). Decoding onto a fresh record the text
  written for \<open>r\<close> under a profile succeeds, and the result is \<open>r\<close> restricted to the
  fields of the profile, except that each time \<open>atime\<close>, \<open>mtime\<close>, \<open>ctime\<close> is cut
  to its whole seconds, as \<open>int\<close> does (a time that is a whole number is unchanged),
  and that every nanosecond field that is zero is absent.
\<close>

theorem roundtrip:
  assumes "hash_ok (sha256 r)"
  shows "read_cfsfile (write_cfsfile_data r flag_data_only flag_data_and_time_only) CFSFile_init
         = Some (Inr (drop_zero_nsec (whole_seconds
              (restrict_to flag_data_only flag_data_and_time_only r))))"
  using decode_written [OF assms] by (simp add: preserved_def)

theorem roundtrip_witness:
  "hash_ok (sha256 (CFSFile_init\<lparr>size_f := Some 12, mtime := Some (3400000001 / 2),
      mtimensec := Some 500000000, sha256 := Some ''0f3a''\<rparr>))
   \<and> read_cfsfile
       (write_cfsfile_data
          (CFSFile_init\<lparr>size_f := Some 12, mtime := Some (3400000001 / 2),
             mtimensec := Some 500000000, sha256 := Some ''0f3a''\<rparr>) False True)
       CFSFile_init
     = Some (Inr (CFSFile_init\<lparr>size_f := Some 12, mtime := Some 1700000000,
          mtimensec := Some 500000000, sha256 := Some ''0f3a''\<rparr>))"
proof -
  let ?r = "CFSFile_init\<lparr>size_f := Some 12, mtime := Some (3400000001 / 2),
      mtimensec := Some 500000000, sha256 := Some ''0f3a''\<rparr>"
  have h: "hash_ok (sha256 ?r)"
    by (simp add: hash_ok_def CFSFile_init_def py_strip_def FORMAT_TRIMMING_CHARS_def)
  have e: "drop_zero_nsec (whole_seconds (restrict_to False True ?r))
           = CFSFile_init\<lparr>size_f := Some 12, mtime := Some 1700000000,
               mtimensec := Some 500000000, sha256 := Some ''0f3a''\<rparr>"
    by (simp add: drop_zero_nsec_def whole_seconds_def restrict_to_def nonzero_def
          CFSFile_init_def py_trunc_def)
  from roundtrip [OF h, of False True] h e show ?thesis by simp
qed

section \<open>A concrete record\<close>

lemma hex_hash_ok:
  assumes "set h \<subseteq> set ''0123456789abcdef''"
  shows "hash_ok (Some h)"
proof -
  have c: "\<And>x. x \<in> set h \<Longrightarrow> x \<notin> set FORMAT_TRIMMING_CHARS"
    using assms by (auto simp: FORMAT_TRIMMING_CHARS_def)
  have "h = [] \<or> (\<not> hd h \<in> set FORMAT_TRIMMING_CHARS \<and> \<not> last h \<in> set FORMAT_TRIMMING_CHARS)"
    using c hd_in_set last_in_set by blast
  then have "py_strip FORMAT_TRIMMING_CHARS h = h"
    unfolding py_strip_def by (rule strip_id)
  moreover have "LF \<notin> set h" "CR \<notin> set h" using assms by auto
  ultimately show ?thesis by (simp add: hash_ok_def)
qed

text \<open>
  \<^bold>\<open>C7\<close>. The record with \<open>size = 4096\<close>, \<open>mode = 0o100644 = 33188\<close>,
  \<open>mtime = 1700000000\<close>, \<open>mtimensec = 0\<close> and a digest of 64 hexadecimal digits is
  written, under the full profile, as exactly five lines: the header, \<open>size=4096\<close>,
  \<open>mode=33188\<close>, \<open>mtime=1700000000\<close> and \<open>sha256=\<close> with the digest, each ended by
  a newline; there is no line for \<open>mtimensec\<close>. Decoding that text gives the record
  with these four fields, and no other field.
\<close>

theorem exact_encoding:
  assumes "length digest = 64" and "set digest \<subseteq> set ''0123456789abcdef''"
  shows "write_cfsfile_data
           (CFSFile_init\<lparr>size_f := Some 4096, mode := Some 33188, mtime := Some 1700000000,
              mtimensec := Some 0, sha256 := Some digest\<rparr>) False False
         = ''CatalogFS=3'' @ [LF] @ ''size=4096'' @ [LF] @ ''mode=33188'' @ [LF]
           @ ''mtime=1700000000'' @ [LF] @ ''sha256='' @ digest @ [LF]
       \<and> read_cfsfile
           (''CatalogFS=3'' @ [LF] @ ''size=4096'' @ [LF] @ ''mode=33188'' @ [LF]
            @ ''mtime=1700000000'' @ [LF] @ ''sha256='' @ digest @ [LF]) CFSFile_init
         = Some (Inr (CFSFile_init\<lparr>size_f := Some 4096, mode := Some 33188,
              mtime := Some 1700000000, sha256 := Some digest\<rparr>))"
proof -
  let ?r = "CFSFile_init\<lparr>size_f := Some 4096, mode := Some 33188, mtime := Some 1700000000,
              mtimensec := Some 0, sha256 := Some digest\<rparr>"
  have s1: "py_str 4096 = ''4096''" by code_simp
  have s2: "py_str 33188 = ''33188''" by code_simp
  have s3: "py_str 1700000000 = ''1700000000''" by code_simp
  have w: "write_cfsfile_data ?r False False
         = ''CatalogFS=3'' @ [LF] @ ''size=4096'' @ [LF] @ ''mode=33188'' @ [LF]
           @ ''mtime=1700000000'' @ [LF] @ ''sha256='' @ digest @ [LF]"
    by (simp add: write_cfsfile_data_def header_to_write fmt_int_def fmt_time_def fmt_nsec_def
          fmt_str_def CFSFile_init_def py_trunc_def s1 s2 s3 FORMAT_FIELD_DELIMITER_def
          FORMAT_NEW_LINE_CHAR_def)
  have "hash_ok (sha256 ?r)" using hex_hash_ok [OF assms(2)] by simp
  from decode_written [OF this, of False False]
  have "read_cfsfile (write_cfsfile_data ?r False False) CFSFile_init
        = Some (Inr (CFSFile_init\<lparr>size_f := Some 4096, mode := Some 33188,
              mtime := Some 1700000000, sha256 := Some digest\<rparr>))"
    by (simp add: preserved_def restrict_to_def whole_seconds_def drop_zero_nsec_def
          nonzero_def CFSFile_init_def py_trunc_def)
  with w show ?thesis by simp
qed

theorem exact_encoding_witness:
  "length ''abc0123456789abcdef0123456789abcdef0123456789abcdef0123456789abc'' = 64
   \<and> set ''abc0123456789abcdef0123456789abcdef0123456789abcdef0123456789abc''
       \<subseteq> set ''0123456789abcdef''
   \<and> write_cfsfile_data
       (CFSFile_init\<lparr>size_f := Some 4096, mode := Some 33188, mtime := Some 1700000000,
          mtimensec := Some 0,
          sha256 := Some ''abc0123456789abcdef0123456789abcdef0123456789abcdef0123456789abc''\<rparr>)
       False False
     = ''CatalogFS=3'' @ [LF] @ ''size=4096'' @ [LF] @ ''mode=33188'' @ [LF]
       @ ''mtime=1700000000'' @ [LF] @ ''sha256=''
       @ ''abc0123456789abcdef0123456789abcdef0123456789abcdef0123456789abc'' @ [LF]"
proof -
  have h1: "length ''abc0123456789abcdef0123456789abcdef0123456789abcdef0123456789abc'' = 64"
    by simp
  have h2: "set ''abc0123456789abcdef0123456789abcdef0123456789abcdef0123456789abc''
       \<subseteq> set ''0123456789abcdef''"
    by simp
  from exact_encoding [OF h1 h2] h1 h2 show ?thesis by blast
qed

section \<open>Nanoseconds that are zero, and fields that are absent\<close>

lemma sublist_py_slice: "sublist (py_slice s a b) s"
proof -
  have "sublist (py_slice s a b) (drop (py_clip s a) s)" by (simp add: py_slice_def)
  moreover have "sublist (drop (py_clip s a) s) s" by simp
  ultimately show ?thesis by (rule sublist_order.order.trans)
qed

lemma sublist_py_strip: "sublist (py_strip cs x) x"
proof -
  let ?P = "\<lambda>c. c \<in> set cs"
  have "sublist (dropWhile ?P (rev (dropWhile ?P x))) (rev (dropWhile ?P x))" by simp
  then have "sublist (py_strip cs x) (dropWhile ?P x)"
    by (simp add: py_strip_def sublist_rev_left)
  moreover have "sublist (dropWhile ?P x) x" by simp
  ultimately show ?thesis by (rule sublist_order.order.trans)
qed

lemma sublist_strip_slice: "sublist (py_strip cs (py_slice s a b)) s"
  using sublist_py_strip sublist_py_slice by (rule sublist_order.order.trans)

lemma next_pair_option_sublist:
  assumes "cfsfile_get_next_option_pair d p = Inr (q, opt, v)"
  shows "sublist opt d"
  using assms
proof (induction "nat (int (length d) - p)" arbitrary: p rule: less_induct)
  case less
  show ?case
  proof (cases "p < int (length d)")
    case False
    with less.prems show ?thesis by (subst (asm) next_pair_unfold) simp
  next
    case True
    then have e: "p \<le> line_end_of d p" using line_end_of_ge [of p d] by simp
    show ?thesis
    proof (cases "py_find d ''='' p (line_end_of d p) = - 1")
      case none: True
      show ?thesis
      proof (cases "py_strip FORMAT_TRIMMING_CHARS (py_slice d p (line_end_of d p)) \<noteq> []")
        case True
        with none \<open>p < int (length d)\<close> less.prems show ?thesis
          by (subst (asm) next_pair_unfold) simp
      next
        case False
        with none True less.prems
        have r: "cfsfile_get_next_option_pair d (line_end_of d p + 1) = Inr (q, opt, v)"
          by (subst (asm) next_pair_unfold) simp
        have "nat (int (length d) - (line_end_of d p + 1)) < nat (int (length d) - p)"
          using e True by simp
        from less.hyps [OF this r] show ?thesis .
      qed
    next
      case False
      with True less.prems have "opt = py_strip FORMAT_TRIMMING_CHARS
          (py_slice d p (py_find d ''='' p (line_end_of d p)))"
        by (subst (asm) next_pair_unfold) simp
      then show ?thesis by (simp add: sublist_strip_slice)
    qed
  qed
qed

lemma fill_param_keeps:
  assumes "fill_cfsfile_param p v c = Inr c'"
  shows "(p \<noteq> ''atimensec'' \<longrightarrow> atimensec c' = atimensec c)
       \<and> (p \<noteq> ''mtimensec'' \<longrightarrow> mtimensec c' = mtimensec c)
       \<and> (p \<noteq> ''ctimensec'' \<longrightarrow> ctimensec c' = ctimensec c)"
  using assms
  by (auto simp: fill_cfsfile_param_def assign_int_def split: if_splits sum.splits)

lemma fill_loop_keeps:
  assumes "fill_cfsfile_loop d p c = Inr c'"
  shows "(\<not> sublist ''atimensec'' d \<longrightarrow> atimensec c' = atimensec c)
       \<and> (\<not> sublist ''mtimensec'' d \<longrightarrow> mtimensec c' = mtimensec c)
       \<and> (\<not> sublist ''ctimensec'' d \<longrightarrow> ctimensec c' = ctimensec c)"
  using assms
proof (induction d p c rule: fill_cfsfile_loop.induct)
  case (1 data current_pos cfs_file)
  note R = fill_cfsfile_loop.simps [of data current_pos cfs_file]
  show ?case
  proof (cases "cfsfile_get_next_option_pair data current_pos")
    case (Inl e)
    with R "1.prems" show ?thesis by simp
  next
    case (Inr t)
    obtain q opt v where t: "t = (q, opt, v)" by (cases t)
    show ?thesis
    proof (cases "q = - 1")
      case True
      with Inr t R "1.prems" show ?thesis by simp
    next
      case False
      show ?thesis
      proof (cases "fill_cfsfile_param opt v cfs_file")
        case (Inl e)
        with Inr t False R "1.prems" show ?thesis by simp
      next
        case c1: (Inr c1)
        with Inr t False R "1.prems" have "fill_cfsfile_loop data q c1 = Inr c'" by simp
        from "1.IH" [OF Inr, of q "(opt, v)" opt v c1] this False t c1
        have IH: "(\<not> sublist ''atimensec'' data \<longrightarrow> atimensec c' = atimensec c1)
          \<and> (\<not> sublist ''mtimensec'' data \<longrightarrow> mtimensec c' = mtimensec c1)
          \<and> (\<not> sublist ''ctimensec'' data \<longrightarrow> ctimensec c' = ctimensec c1)" by simp
        have "sublist opt data" using Inr t next_pair_option_sublist by simp
        with fill_param_keeps [OF c1] IH show ?thesis by auto
      qed
    qed
  qed
qed

lemma fill_keeps:
  assumes "fill_cfsfile_from_string d c = Inr c'"
  shows "(\<not> sublist ''atimensec'' d \<longrightarrow> atimensec c' = atimensec c)
       \<and> (\<not> sublist ''mtimensec'' d \<longrightarrow> mtimensec c' = mtimensec c)
       \<and> (\<not> sublist ''ctimensec'' d \<longrightarrow> ctimensec c' = ctimensec c)"
proof -
  from assms obtain q where "fill_cfsfile_loop d q c = Inr c'"
    by (auto simp: fill_cfsfile_from_string_def split: sum.splits prod.splits if_splits option.splits)
  then show ?thesis by (rule fill_loop_keeps)
qed

lemma old_assign_int_keeps:
  assumes "old_assign_int r upd = Inr (q, c')"
  shows "\<exists>n. c' = upd (Some n)"
  using assms by (auto simp: old_assign_int_def split: sum.splits)

lemma old_param_keeps:
  assumes "old_format_fill_cfsfile_param p d vs c = Inr (q, c')"
  shows "(p \<noteq> ''atimensec'' \<longrightarrow> atimensec c' = atimensec c)
       \<and> (p \<noteq> ''mtimensec'' \<longrightarrow> mtimensec c' = mtimensec c)
       \<and> (p \<noteq> ''ctimensec'' \<longrightarrow> ctimensec c' = ctimensec c)"
  using assms
  by (auto simp: old_format_fill_cfsfile_param_def split: if_splits prod.splits
        dest!: old_assign_int_keeps)

lemma old_step_keeps:
  assumes "old_format_body_step d p c = Inr (q, c')"
  shows "(\<not> sublist ''atimensec'' d \<longrightarrow> atimensec c' = atimensec c)
       \<and> (\<not> sublist ''mtimensec'' d \<longrightarrow> mtimensec c' = mtimensec c)
       \<and> (\<not> sublist ''ctimensec'' d \<longrightarrow> ctimensec c' = ctimensec c)"
proof -
  let ?le = "py_find d [LF] p (int (length d))"
  let ?pe = "py_find d '': '' p ?le"
  show ?thesis
  proof (cases "?pe = - 1")
    case True
    with assms have "c' = c"
      by (auto simp: old_format_body_step_def Let_def split: if_splits)
    then show ?thesis by simp
  next
    case False
    with assms have "old_format_fill_cfsfile_param (py_slice d p ?pe) d (?pe + 2) c = Inr (q, c')"
      by (simp add: old_format_body_step_def Let_def)
    from old_param_keeps [OF this] sublist_py_slice [of d p ?pe] show ?thesis by auto
  qed
qed

lemma old_loop_keeps:
  assumes "old_format_body_loop d p c = Some y"
  shows "\<forall>c'. y = Inr c' \<longrightarrow>
         (\<not> sublist ''atimensec'' d \<longrightarrow> atimensec c' = atimensec c)
       \<and> (\<not> sublist ''mtimensec'' d \<longrightarrow> mtimensec c' = mtimensec c)
       \<and> (\<not> sublist ''ctimensec'' d \<longrightarrow> ctimensec c' = ctimensec c)"
proof (rule old_format_body_loop.raw_induct [OF _ assms])
  fix f :: "string \<Rightarrow> int \<Rightarrow> CFSFile \<Rightarrow> (error + CFSFile) option"
  fix data current_pos cfs_file r
  assume IH: "\<And>d p c y. f d p c = Some y \<Longrightarrow> \<forall>c'. y = Inr c' \<longrightarrow>
         (\<not> sublist ''atimensec'' d \<longrightarrow> atimensec c' = atimensec c)
       \<and> (\<not> sublist ''mtimensec'' d \<longrightarrow> mtimensec c' = mtimensec c)
       \<and> (\<not> sublist ''ctimensec'' d \<longrightarrow> ctimensec c' = ctimensec c)"
  assume st: "(if current_pos < int (length data)
               then case old_format_body_step data current_pos cfs_file of
                      Inl e \<Rightarrow> Some (Inl e)
                    | Inr (new_pos, cfs_file') \<Rightarrow> f data new_pos cfs_file'
               else Some (Inr cfs_file)) = Some r"
  show "\<forall>c'. r = Inr c' \<longrightarrow>
         (\<not> sublist ''atimensec'' data \<longrightarrow> atimensec c' = atimensec cfs_file)
       \<and> (\<not> sublist ''mtimensec'' data \<longrightarrow> mtimensec c' = mtimensec cfs_file)
       \<and> (\<not> sublist ''ctimensec'' data \<longrightarrow> ctimensec c' = ctimensec cfs_file)"
  proof (cases "current_pos < int (length data)")
    case False
    with st show ?thesis by auto
  next
    case True
    show ?thesis
    proof (cases "old_format_body_step data current_pos cfs_file")
      case (Inl e)
      with True st show ?thesis by auto
    next
      case (Inr t)
      obtain q c1 where t: "t = (q, c1)" by (cases t)
      with Inr True st have "f data q c1 = Some r" by simp
      from IH [OF this] old_step_keeps [OF Inr [unfolded t]] show ?thesis by auto
    qed
  qed
qed

lemma old_format_keeps:
  assumes "old_format_fill_cfsfile_from_string data c = Some (Inr c')"
  shows "(\<not> sublist ''atimensec'' data \<longrightarrow> atimensec c' = atimensec c)
       \<and> (\<not> sublist ''mtimensec'' data \<longrightarrow> mtimensec c' = mtimensec c)
       \<and> (\<not> sublist ''ctimensec'' data \<longrightarrow> ctimensec c' = ctimensec c)"
proof -
  let ?he = "py_find data [LF] 0 (int (length data))"
  let ?body = "py_slice data (?he + 1) (int (length data))"
  from assms have "old_format_body_loop ?body 0 c = Some (Inr c')"
    by (auto simp: old_format_fill_cfsfile_from_string_def Let_def
          old_format_fill_cfsfile_body_from_string_def split: if_splits option.splits)
  from old_loop_keeps [OF this]
  have k: "(\<not> sublist ''atimensec'' ?body \<longrightarrow> atimensec c' = atimensec c)
       \<and> (\<not> sublist ''mtimensec'' ?body \<longrightarrow> mtimensec c' = mtimensec c)
       \<and> (\<not> sublist ''ctimensec'' ?body \<longrightarrow> ctimensec c' = ctimensec c)" by simp
  have "sublist x ?body \<Longrightarrow> sublist x data" for x
    using sublist_py_slice [of data "?he + 1" "int (length data)"]
    by (rule sublist_order.order.trans [rotated])
  with k show ?thesis by blast
qed

lemma read_keeps:
  assumes "read_cfsfile data c = Some (Inr c')"
  shows "(\<not> sublist ''atimensec'' data \<longrightarrow> atimensec c' = atimensec c)
       \<and> (\<not> sublist ''mtimensec'' data \<longrightarrow> mtimensec c' = mtimensec c)
       \<and> (\<not> sublist ''ctimensec'' data \<longrightarrow> ctimensec c' = ctimensec c)"
proof (cases "is_old_format_cfsfile data")
  case True
  with assms have "old_format_fill_cfsfile_from_string data c = Some (Inr c')"
    by (simp add: read_cfsfile_def)
  then show ?thesis by (rule old_format_keeps)
next
  case False
  with assms have "fill_cfsfile_from_string data c = Inr c'"
    by (simp add: read_cfsfile_def)
  then show ?thesis by (rule fill_keeps)
qed

text \<open>
  \<^bold>\<open>C4\<close>. First, a nanosecond field that is zero is not written: under every profile the
  text is the one written for the record without that field. Second, when the hash of
  the record is well formed, decoding that text onto a fresh record succeeds and leaves
  the field absent. Third, decoding never invents a value: when the name of a
  nanosecond field does not occur anywhere in the input and decoding succeeds, the field
  has the value it had before, which is absent for a fresh record. This holds for both
  readers.
\<close>

theorem zero_suppression:
  "(atimensec r = Some 0 \<longrightarrow>
      write_cfsfile_data r d t = write_cfsfile_data (r\<lparr>atimensec := None\<rparr>) d t)
   \<and> (mtimensec r = Some 0 \<longrightarrow>
      write_cfsfile_data r d t = write_cfsfile_data (r\<lparr>mtimensec := None\<rparr>) d t)
   \<and> (ctimensec r = Some 0 \<longrightarrow>
      write_cfsfile_data r d t = write_cfsfile_data (r\<lparr>ctimensec := None\<rparr>) d t)
   \<and> (hash_ok (sha256 r) \<longrightarrow>
      (\<exists>r'. read_cfsfile (write_cfsfile_data r d t) CFSFile_init = Some (Inr r')
         \<and> (atimensec r = Some 0 \<longrightarrow> atimensec r' = None)
         \<and> (mtimensec r = Some 0 \<longrightarrow> mtimensec r' = None)
         \<and> (ctimensec r = Some 0 \<longrightarrow> ctimensec r' = None)))
   \<and> (read_cfsfile data c = Some (Inr c') \<longrightarrow>
        (\<not> sublist ''atimensec'' data \<longrightarrow> atimensec c' = atimensec c)
      \<and> (\<not> sublist ''mtimensec'' data \<longrightarrow> mtimensec c' = mtimensec c)
      \<and> (\<not> sublist ''ctimensec'' data \<longrightarrow> ctimensec c' = ctimensec c))"
proof (intro conjI impI)
  assume "hash_ok (sha256 r)"
  then have rd: "read_cfsfile (write_cfsfile_data r d t) CFSFile_init
                 = Some (Inr (preserved d t r))"
    by (rule decode_written)
  have a: "atimensec r = Some 0 \<Longrightarrow> atimensec (preserved d t r) = None"
    by (simp add: preserved_def restrict_to_def whole_seconds_def drop_zero_nsec_def
          nonzero_def CFSFile_init_def)
  have m: "mtimensec r = Some 0 \<Longrightarrow> mtimensec (preserved d t r) = None"
    by (simp add: preserved_def restrict_to_def whole_seconds_def drop_zero_nsec_def
          nonzero_def CFSFile_init_def)
  have c: "ctimensec r = Some 0 \<Longrightarrow> ctimensec (preserved d t r) = None"
    by (simp add: preserved_def restrict_to_def whole_seconds_def drop_zero_nsec_def
          nonzero_def CFSFile_init_def)
  from rd a m c
  show "\<exists>r'. read_cfsfile (write_cfsfile_data r d t) CFSFile_init = Some (Inr r')
         \<and> (atimensec r = Some 0 \<longrightarrow> atimensec r' = None)
         \<and> (mtimensec r = Some 0 \<longrightarrow> mtimensec r' = None)
         \<and> (ctimensec r = Some 0 \<longrightarrow> ctimensec r' = None)"
    by blast
next
  assume "read_cfsfile data c = Some (Inr c')" and "\<not> sublist ''atimensec'' data"
  then show "atimensec c' = atimensec c" using read_keeps by blast
next
  assume "read_cfsfile data c = Some (Inr c')" and "\<not> sublist ''mtimensec'' data"
  then show "mtimensec c' = mtimensec c" using read_keeps by blast
next
  assume "read_cfsfile data c = Some (Inr c')" and "\<not> sublist ''ctimensec'' data"
  then show "ctimensec c' = ctimensec c" using read_keeps by blast
qed (simp_all add: write_cfsfile_data_def fmt_nsec_def)

theorem zero_suppression_witness:
  "write_cfsfile_data
     (CFSFile_init\<lparr>size_f := Some 1, atimensec := Some 0, mtimensec := Some 0,
        ctimensec := Some 0\<rparr>) False False
   = write_cfsfile_data
       ((CFSFile_init\<lparr>size_f := Some 1, atimensec := Some 0, mtimensec := Some 0,
          ctimensec := Some 0\<rparr>)\<lparr>atimensec := None\<rparr>) False False
   \<and> (\<exists>r'. read_cfsfile
          (write_cfsfile_data
             (CFSFile_init\<lparr>size_f := Some 1, atimensec := Some 0, mtimensec := Some 0,
                ctimensec := Some 0\<rparr>) False False) CFSFile_init = Some (Inr r')
        \<and> (atimensec r' = None \<and> mtimensec r' = None \<and> ctimensec r' = None))
   \<and> atimensec (CFSFile_init\<lparr>size_f := Some 1\<rparr>) = atimensec CFSFile_init"
proof -
  let ?r = "CFSFile_init\<lparr>size_f := Some 1, atimensec := Some 0, mtimensec := Some 0,
              ctimensec := Some 0\<rparr>"
  let ?data = "''CatalogFS=3'' @ [LF] @ ''size=1'' @ [LF]"
  have h: "hash_ok (sha256 ?r)" by (simp add: hash_ok_def CFSFile_init_def)
  have z: "atimensec ?r = Some 0" "mtimensec ?r = Some 0" "ctimensec ?r = Some 0" by simp_all
  have rd: "read_cfsfile ?data CFSFile_init = Some (Inr (CFSFile_init\<lparr>size_f := Some 1\<rparr>))"
    by code_simp
  have ns: "\<not> sublist ''atimensec'' ?data" by code_simp
  note T = zero_suppression [of ?r False False ?data CFSFile_init
      "CFSFile_init\<lparr>size_f := Some 1\<rparr>"]
  from T z(1) have c1: "write_cfsfile_data ?r False False
      = write_cfsfile_data (?r\<lparr>atimensec := None\<rparr>) False False" by blast
  from T h z have c2: "\<exists>r'. read_cfsfile (write_cfsfile_data ?r False False) CFSFile_init
      = Some (Inr r') \<and> (atimensec r' = None \<and> mtimensec r' = None \<and> ctimensec r' = None)"
    by blast
  from T rd ns have c3: "atimensec (CFSFile_init\<lparr>size_f := Some 1\<rparr>) = atimensec CFSFile_init"
    by blast
  from c1 c2 c3 show ?thesis by (intro conjI)
qed

section \<open>A field given more than once\<close>

lemma sha256_not_int_field: "''sha256'' \<notin> set int_fields"
  by (simp add: int_fields_def)

lemma loop_valid_line:
  assumes "valid_line nv"
  shows "fill_cfsfile_loop (render_line nv @ rest) 0 c = fill_cfsfile_loop rest 0 (apply_line c nv)"
proof (cases "fst nv = ''sha256''")
  case True
  with assms show ?thesis
    using fill_loop_value_line [of "''sha256''" "snd nv" rest c] sha256_clean
    by (simp add: render_line_def valid_line_def apply_line_def param_sha256)
next
  case False
  with assms have n: "fst nv \<in> set int_fields" and v: "LF \<notin> set (snd nv)" "CR \<notin> set (snd nv)"
    and d: "decoded_int (snd nv) \<noteq> None"
    by (auto simp: valid_line_def)
  from d obtain k where k: "decoded_int (snd nv) = Some k" by auto
  then have e: "cfsfile_extract_int (snd nv) = Inr k"
    by (simp add: cfsfile_extract_int_def decoded_int_def)
  show ?thesis
    using fill_loop_value_line [of "fst nv" "snd nv" rest c] int_field_clean [OF n] v False
    by (simp add: render_line_def apply_line_def param_int [OF n] e k assign_int_def)
qed

lemma loop_valid_lines:
  assumes "\<forall>nv\<in>set ls. valid_line nv"
  shows "fill_cfsfile_loop (concat (map render_line ls)) 0 c = Inr (foldl apply_line c ls)"
  using assms
proof (induction ls arbitrary: c)
  case Nil
  show ?case by (simp add: fill_loop_nil)
next
  case (Cons nv ls)
  then show ?case by (simp add: loop_valid_line)
qed

lemma get_num_set_int:
  assumes "name \<in> set int_fields"
  shows "get_num name (set_int m v c) =
         (if m = name then map_option real_of_int v else get_num name c)"
  using assms unfolding in_int_fields
  by (elim disjE) (simp_all add: get_num_def set_int_def)

lemma sha256_set_int: "sha256 (set_int m v c) = sha256 c"
  by (simp add: set_int_def)

lemma get_num_sha256_update: "get_num name (c\<lparr>sha256 := x\<rparr>) = get_num name c"
  by (simp add: get_num_def)

lemma last_value_snoc:
  "last_value name (ls @ [nv]) = (if fst nv = name then Some (snd nv) else last_value name ls)"
  by (simp add: last_value_def)

lemma get_num_lines:
  assumes "name \<in> set int_fields"
  shows "get_num name (foldl apply_line c ls) =
         (case last_value name ls of
            None \<Rightarrow> get_num name c
          | Some v \<Rightarrow> map_option real_of_int (decoded_int v))"
proof (induction ls rule: rev_induct)
  case Nil
  show ?case by (simp add: last_value_def)
next
  case (snoc nv ls)
  show ?case
  proof (cases "fst nv = ''sha256''")
    case True
    with assms sha256_not_int_field have "fst nv \<noteq> name" by auto
    with True snoc show ?thesis
      by (simp add: last_value_snoc apply_line_def get_num_sha256_update)
  next
    case False
    with snoc show ?thesis
      by (simp add: last_value_snoc apply_line_def get_num_set_int [OF assms])
  qed
qed

lemma sha256_lines:
  "sha256 (foldl apply_line c ls) =
   (case last_value ''sha256'' ls of
      None \<Rightarrow> sha256 c
    | Some v \<Rightarrow> Some (py_strip FORMAT_TRIMMING_CHARS v))"
proof (induction ls rule: rev_induct)
  case Nil
  show ?case by (simp add: last_value_def)
next
  case (snoc nv ls)
  then show ?case
    by (simp add: last_value_snoc apply_line_def sha256_set_int)
qed

text \<open>
  \<^bold>\<open>C9\<close>. A text made of the header and of any valid lines, with names repeated or
  not, is decoded successfully, and in the result every field named on some line holds
  the value of the last line with that name; a field named on no line keeps the value it
  had. (\<open>get_num\<close> is the number a field holds; the value of a line is an integer.)
\<close>

theorem duplicate_fields_last_wins:
  assumes "\<forall>nv\<in>set ls. valid_line nv"
  shows "\<exists>r. read_cfsfile (FORMAT_HEADER_TO_WRITE @ concat (map render_line ls)) c = Some (Inr r)
     \<and> (\<forall>name\<in>set int_fields.
          get_num name r =
            (case last_value name ls of
               None \<Rightarrow> get_num name c
             | Some v \<Rightarrow> map_option real_of_int (decoded_int v)))
     \<and> sha256 r =
          (case last_value ''sha256'' ls of
             None \<Rightarrow> sha256 c
           | Some v \<Rightarrow> Some (py_strip FORMAT_TRIMMING_CHARS v))"
  using loop_valid_lines [OF assms, of c] get_num_lines [of _ c ls] sha256_lines [of c ls]
  by (simp add: read_after_header)

theorem duplicate_fields_last_wins_witness:
  "\<exists>r. read_cfsfile
         (FORMAT_HEADER_TO_WRITE
          @ concat (map render_line
              [(''size'', ''1''), (''sha256'', ''aa''), (''size'', '' 22''), (''sha256'', ''bb'')]))
         CFSFile_init = Some (Inr r)
       \<and> size_f r = Some 22 \<and> blocks r = None \<and> sha256 r = Some ''bb''"
proof -
  let ?ls = "[(''size'', ''1''), (''sha256'', ''aa''), (''size'', '' 22''), (''sha256'', ''bb'')]"
  have h: "\<forall>nv\<in>set ?ls. valid_line nv" by code_simp
  from duplicate_fields_last_wins [OF h, of CFSFile_init]
  obtain r where r: "read_cfsfile (FORMAT_HEADER_TO_WRITE @ concat (map render_line ?ls))
        CFSFile_init = Some (Inr r)"
    and g: "\<forall>name\<in>set int_fields.
          get_num name r =
            (case last_value name ?ls of
               None \<Rightarrow> get_num name CFSFile_init
             | Some v \<Rightarrow> map_option real_of_int (decoded_int v))"
    and s: "sha256 r =
          (case last_value ''sha256'' ?ls of
             None \<Rightarrow> sha256 CFSFile_init
           | Some v \<Rightarrow> Some (py_strip FORMAT_TRIMMING_CHARS v))"
    by blast
  have l1: "last_value ''size'' ?ls = Some '' 22''" by code_simp
  have l2: "last_value ''blocks'' ?ls = None" by code_simp
  have l3: "last_value ''sha256'' ?ls = Some ''bb''" by code_simp
  have d: "decoded_int '' 22'' = Some 22" by code_simp
  have t: "py_strip FORMAT_TRIMMING_CHARS ''bb'' = ''bb''" by code_simp
  have m1: "''size'' \<in> set int_fields" and m2: "''blocks'' \<in> set int_fields"
    by (simp_all add: int_fields_def)
  from g m1 have "get_num ''size'' r =
      (case last_value ''size'' ?ls of
         None \<Rightarrow> get_num ''size'' CFSFile_init
       | Some v \<Rightarrow> map_option real_of_int (decoded_int v))" by blast
  then have 1: "size_f r = Some 22" by (simp add: l1 d get_num_def)
  from g m2 have "get_num ''blocks'' r =
      (case last_value ''blocks'' ?ls of
         None \<Rightarrow> get_num ''blocks'' CFSFile_init
       | Some v \<Rightarrow> map_option real_of_int (decoded_int v))" by blast
  then have 2: "blocks r = None" by (simp add: l2 get_num_def CFSFile_init_def)
  from s have 3: "sha256 r = Some ''bb''" by (simp add: l3 t)
  from r 1 2 3 show ?thesis by blast
qed

end
